theory Spec2Isabelle
  imports Main "HOL-Library.Word" "HOL-Library.Sublist"
begin

section \<open>The scp action: data model\<close>

text \<open>
  The program is the single file \<^verbatim>\<open>main.go\<close>: it reads its configuration from the
  process environment, opens an SSH session to the target (directly, or tunnelled through a
  proxy session), copies every source file and exits.

  Go strings are byte strings: \<open>string\<close> (a list of 8-bit characters). \<^verbatim>\<open>int64\<close> and
  \<^verbatim>\<open>time.Duration\<close> are 64-bit words. An \<^verbatim>\<open>error\<close> is modelled by its message, the
  text that \<^verbatim>\<open>%v\<close> prints.
\<close>

type_synonym Duration = "64 word"
type_synonym PublicKey = string
type_synonym Addr = string

datatype Signer = Signer string
datatype Client = Client nat
datatype Conn = Conn nat

text \<open>
  \<^verbatim>\<open>ssh.ClientConfig\<close>, with the four fields that \<^verbatim>\<open>main\<close> sets. A host-key callback
  returns \<^verbatim>\<open>nil\<close> (\<open>None\<close>) to accept the presented key and an error to reject it.
\<close>

record ClientConfig =
  Timeout :: Duration
  User :: string
  Auth :: "Signer list"
  HostKeyCallback :: "string \<Rightarrow> Addr \<Rightarrow> PublicKey \<Rightarrow> string option"

text \<open>
  Everything the program does to the outside world is one event of the run's transcript,
  in the order of execution. A call of an external operation is recorded with its arguments
  and with the result it returned; \<open>EvLog\<close> is a message handed to the logger (without
  the time stamp that the logger puts in front of it and without the end of the line).
\<close>

datatype event =
    EvTimer Duration
  | EvSshDial string ClientConfig "string + Client"
  | EvClientDial Client string "string + Conn"
  | EvNewClientConn Conn string ClientConfig "string + Client"
  | EvClose Client
  | EvCopyTo Client string string "string + 64 word"
  | EvCopyFrom Client string string "string + 64 word"
  | EvLog string

text \<open>
  The external collaborators: the functions of the Go standard library and of the
  \<^verbatim>\<open>ssh\<close> and \<^verbatim>\<open>scp\<close> packages that \<^verbatim>\<open>main.go\<close> calls and whose code is not part
  of this program. Pure ones are functions of their argument; the ones that touch the
  network take the state \<open>'w\<close> of the world and return it changed.
  \<^item> \<open>parseDuration\<close>: \<^verbatim>\<open>time.ParseDuration\<close>
  \<^item> \<open>parsePrivateKey\<close>: \<^verbatim>\<open>ssh.ParsePrivateKey\<close>
  \<^item> \<open>fingerprintSHA256\<close>: \<^verbatim>\<open>ssh.FingerprintSHA256\<close>
  \<^item> \<open>trimSpace\<close>: \<^verbatim>\<open>strings.TrimSpace\<close>
  \<^item> \<open>sshDial\<close>: \<^verbatim>\<open>ssh.Dial("tcp", addr, config)\<close>
  \<^item> \<open>clientDial\<close>: \<^verbatim>\<open>(*ssh.Client).Dial("tcp", addr)\<close>
  \<^item> \<open>newClientConn\<close>: \<^verbatim>\<open>ssh.NewClientConn(conn, addr, config)\<close> followed by
    \<^verbatim>\<open>ssh.NewClient\<close>, which only wraps the three values of a successful handshake
  \<^item> \<open>clientClose\<close>: \<^verbatim>\<open>(*ssh.Client).Close\<close>, whose result the program drops
  \<^item> \<open>copyTo\<close>, \<open>copyFrom\<close>: \<^verbatim>\<open>scp.CopyTo\<close>, \<^verbatim>\<open>scp.CopyFrom\<close>
\<close>

record 'w prims =
  parseDuration :: "string \<Rightarrow> string + Duration"
  parsePrivateKey :: "string \<Rightarrow> string + Signer"
  fingerprintSHA256 :: "PublicKey \<Rightarrow> string"
  trimSpace :: "string \<Rightarrow> string"
  sshDial :: "'w \<Rightarrow> string \<Rightarrow> ClientConfig \<Rightarrow> (string + Client) \<times> 'w"
  clientDial :: "'w \<Rightarrow> Client \<Rightarrow> string \<Rightarrow> (string + Conn) \<times> 'w"
  newClientConn :: "'w \<Rightarrow> Conn \<Rightarrow> string \<Rightarrow> ClientConfig \<Rightarrow> (string + Client) \<times> 'w"
  clientClose :: "'w \<Rightarrow> Client \<Rightarrow> 'w"
  copyTo :: "'w \<Rightarrow> Client \<Rightarrow> string \<Rightarrow> string \<Rightarrow> (string + 64 word) \<times> 'w"
  copyFrom :: "'w \<Rightarrow> Client \<Rightarrow> string \<Rightarrow> string \<Rightarrow> (string + 64 word) \<times> 'w"

text \<open>
  How \<^verbatim>\<open>main\<close> ends: it returns (exit status 0, after the deferred calls have run), or
  \<^verbatim>\<open>log.Fatalf\<close> prints a message and calls \<^verbatim>\<open>os.Exit(1)\<close>, which runs no deferred call.
\<close>

datatype outcome = Returned | Fatal string

section \<open>The standard library functions on strings and paths\<close>

text \<open>
  \<^verbatim>\<open>main.go\<close> computes its source list with \<^verbatim>\<open>strings.Split\<close> and its destinations
  with \<^verbatim>\<open>path.Split\<close> and \<^verbatim>\<open>path.Join\<close>. These are functions of the Go standard library
  (packages \<^verbatim>\<open>strings\<close> and \<^verbatim>\<open>path\<close>); they are pure, and they are written out here
  after the library's code, loop by loop.
\<close>

text \<open>
  \<^verbatim>\<open>strings.Split(s, sep)\<close> for a separator of one byte, which is how \<^verbatim>\<open>main\<close> calls it
  (\<^verbatim>\<open>"\n"\<close>): the pieces of \<open>s\<close> between the occurrences of the separator, one more
  piece than there are occurrences.
\<close>

fun strings_Split :: "string \<Rightarrow> char \<Rightarrow> string list" where
  "strings_Split [] sep = [[]]"
| "strings_Split (c # cs) sep =
     (if c = sep then [] # strings_Split cs sep
      else (case strings_Split cs sep of
              [] \<Rightarrow> [[c]]
            | piece # pieces \<Rightarrow> (c # piece) # pieces))"

text \<open>
  \<^verbatim>\<open>bytealg.LastIndexByteString\<close>: the index of the last occurrence of the byte, or -1.
\<close>

fun LastIndexByte :: "string \<Rightarrow> char \<Rightarrow> int" where
  "LastIndexByte [] c = - 1"
| "LastIndexByte (x # xs) c =
     (let r = LastIndexByte xs c
      in if 0 \<le> r then r + 1 else if x = c then 0 else - 1)"

text \<open>
  \<^verbatim>\<open>path.Split\<close>:
  \<^verbatim>\<open>i := bytealg.LastIndexByteString(path, '/'); return path[:i+1], path[i+1:]\<close>
\<close>

definition path_Split :: "string \<Rightarrow> string \<times> string" where
  "path_Split p =
     (let i = LastIndexByte p (CHR ''/'')
      in (take (nat (i + 1)) p, drop (nat (i + 1)) p))"

text \<open>
  \<^verbatim>\<open>path.Clean\<close>. The output buffer of the Go code is a list here: its write index
  \<^verbatim>\<open>out.w\<close> is the length of the list, and stepping the index back truncates the list.

  Backtracking over a \<^verbatim>\<open>..\<close> element:
  \<^verbatim>\<open>out.w--; for out.w > dotdot && out.index(out.w) != '/' { out.w-- }\<close>
  The function is given the index after the first decrement.
\<close>

function backtrack :: "string \<Rightarrow> nat \<Rightarrow> nat \<Rightarrow> nat" where
  "backtrack buf w dotdot =
     (if dotdot < w \<and> buf ! w \<noteq> CHR ''/'' then backtrack buf (w - 1) dotdot else w)"
  by pat_completeness auto
termination
  by (relation "measure (\<lambda>(buf, w, dotdot). w)") auto

declare backtrack.simps [simp del]

text \<open>
  The main loop of \<^verbatim>\<open>path.Clean\<close>, on the part of the path not yet read. Its four cases, in
  the order of the \<^verbatim>\<open>switch\<close>: a slash (empty element), a \<^verbatim>\<open>.\<close> element, a \<^verbatim>\<open>..\<close>
  element, and a real element, which is copied up to the next slash.
\<close>

function Clean_loop :: "bool \<Rightarrow> string \<Rightarrow> string \<Rightarrow> nat \<Rightarrow> string" where
  "Clean_loop rooted [] out dotdot = out"
| "Clean_loop rooted (c # cs) out dotdot =
     (if c = CHR ''/'' then Clean_loop rooted cs out dotdot
      else if c = CHR ''.'' \<and> (cs = [] \<or> hd cs = CHR ''/'') then Clean_loop rooted cs out dotdot
      else if c = CHR ''.'' \<and> cs \<noteq> [] \<and> hd cs = CHR ''.''
              \<and> (tl cs = [] \<or> hd (tl cs) = CHR ''/'') then
        (if dotdot < length out then
           Clean_loop rooted (tl cs) (take (backtrack out (length out - 1) dotdot) out) dotdot
         else if \<not> rooted then
           (let out' = (if 0 < length out then out @ ''/'' else out) @ ''..''
            in Clean_loop rooted (tl cs) out' (length out'))
         else Clean_loop rooted (tl cs) out dotdot)
      else
        (let out' = (if rooted \<and> length out \<noteq> 1 \<or> \<not> rooted \<and> length out \<noteq> 0
                     then out @ ''/'' else out)
         in Clean_loop rooted (dropWhile (\<lambda>x. x \<noteq> CHR ''/'') cs)
              (out' @ c # takeWhile (\<lambda>x. x \<noteq> CHR ''/'') cs) dotdot))"
  by pat_completeness auto
termination
  by (relation "measure (\<lambda>(rooted, rest, out, dotdot). length rest)")
     (auto simp: less_Suc_eq_le length_dropWhile_le intro: le_SucI)

declare Clean_loop.simps(2) [simp del]

definition path_Clean :: "string \<Rightarrow> string" where
  "path_Clean p =
     (if p = [] then ''.''
      else
        (let rooted = (hd p = CHR ''/'');
             out = (if rooted then Clean_loop True (tl p) ''/'' 1
                    else Clean_loop False p [] 0)
         in if out = [] then ''.'' else out))"

text \<open>
  \<^verbatim>\<open>path.Join\<close>: the empty string when every element is empty; otherwise the non-empty
  elements separated by slashes, cleaned.
\<close>

definition Join_step :: "string \<Rightarrow> string \<Rightarrow> string" where
  "Join_step buf e =
     (if 0 < length buf \<or> e \<noteq> [] then (if 0 < length buf then buf @ ''/'' else buf) @ e
      else buf)"

definition path_Join :: "string list \<Rightarrow> string" where
  "path_Join elem =
     (if sum_list (map length elem) = 0 then []
      else path_Clean (foldl Join_step [] elem))"

section \<open>The program\<close>

definition DirectionUpload :: string where
  "DirectionUpload = ''upload''"

definition DirectionDownload :: string where
  "DirectionDownload = ''download''"

text \<open>
  \<^verbatim>\<open>VerifyFingerprint\<close> (lines 144-153). The fingerprint function of the \<^verbatim>\<open>ssh\<close>
  package is the first argument.
\<close>

definition VerifyFingerprint ::
  "(PublicKey \<Rightarrow> string) \<Rightarrow> string \<Rightarrow> string \<Rightarrow> Addr \<Rightarrow> PublicKey \<Rightarrow> string option" where
  "VerifyFingerprint fp expected hostname remote pubKey =
     (let fingerprint = fp pubKey
      in if fingerprint \<noteq> expected then Some ''fingerprint mismatch'' else None)"

text \<open>
  The messages of the three progress lines. The first bytes of each are the UTF-8
  encoding of the symbol that the source has there. \<^verbatim>\<open>%d\<close> prints a signed decimal.
\<close>

definition digit :: "nat \<Rightarrow> char" where
  "digit d = char_of (48 + d)"

function decimal :: "nat \<Rightarrow> string" where
  "decimal n = (if n < 10 then [digit n] else decimal (n div 10) @ [digit (n mod 10)])"
  by pat_completeness auto
termination
  by (relation "measure id") auto

declare decimal.simps [simp del]

definition fmt_d :: "64 word \<Rightarrow> string" where
  "fmt_d n = (if sint n < 0 then ''-'' @ decimal (nat (- sint n)) else decimal (nat (sint n)))"

definition msg_uploading :: string where
  "msg_uploading = [CHR 0xF0, CHR 0x9F, CHR 0x94, CHR 0xBC] @ '' Uploading ...''"

definition msg_downloading :: string where
  "msg_downloading = [CHR 0xF0, CHR 0x9F, CHR 0x94, CHR 0xBD] @ '' Downloading ...''"

definition msg_transferred :: "64 word \<Rightarrow> string" where
  "msg_transferred n =
     [CHR 0xF0, CHR 0x9F, CHR 0x93, CHR 0xA1] @ '' Transferred '' @ fmt_d n @ '' files''"

text \<open>
  \<^verbatim>\<open>Upload\<close> (lines 156-172). The loop over the source files is \<open>Upload_loop\<close>, with
  the counter \<^verbatim>\<open>transferredFiles\<close> as an argument. The result is \<open>Inr\<close> of the
  counter when the function returns, and \<open>Inl\<close> of the message when \<^verbatim>\<open>log.Fatalf\<close>
  ends the process inside the loop; with it come the world and the events of the call.
\<close>

fun Upload_loop ::
  "'w prims \<Rightarrow> Client \<Rightarrow> string \<Rightarrow> string list \<Rightarrow> 64 word \<Rightarrow> 'w
     \<Rightarrow> (string + 64 word) \<times> 'w \<times> event list" where
  "Upload_loop P client targetFolder [] transferredFiles w = (Inr transferredFiles, w, [])"
| "Upload_loop P client targetFolder (sourceFile # rest) transferredFiles w =
     (let file = snd (path_Split sourceFile);
          targetFile = path_Join [targetFolder, file]
      in case copyTo P w client sourceFile targetFile of
           (Inl err, w') \<Rightarrow>
             (Inl (''Failed to upload file to remote: '' @ err), w',
              [EvCopyTo client sourceFile targetFile (Inl err)])
         | (Inr written, w') \<Rightarrow>
             (case Upload_loop P client targetFolder rest (transferredFiles + 1) w' of
                (res, w'', evs) \<Rightarrow>
                  (res, w'',
                   EvCopyTo client sourceFile targetFile (Inr written)
                   # EvLog (sourceFile @ '' >> '' @ targetFile) # evs)))"

definition Upload ::
  "'w prims \<Rightarrow> Client \<Rightarrow> string list \<Rightarrow> string \<Rightarrow> 'w \<Rightarrow> (string + 64 word) \<times> 'w \<times> event list" where
  "Upload P client sourceFiles targetFolder w =
     (case Upload_loop P client targetFolder sourceFiles 0 w of
        (res, w', evs) \<Rightarrow> (res, w', EvLog msg_uploading # evs))"

text \<open>\<^verbatim>\<open>Download\<close> (lines 175-191), in the same way.\<close>

fun Download_loop ::
  "'w prims \<Rightarrow> Client \<Rightarrow> string \<Rightarrow> string list \<Rightarrow> 64 word \<Rightarrow> 'w
     \<Rightarrow> (string + 64 word) \<times> 'w \<times> event list" where
  "Download_loop P client targetFolder [] transferredFiles w = (Inr transferredFiles, w, [])"
| "Download_loop P client targetFolder (sourceFile # rest) transferredFiles w =
     (let file = snd (path_Split sourceFile);
          targetFile = path_Join [targetFolder, file]
      in case copyFrom P w client sourceFile targetFile of
           (Inl err, w') \<Rightarrow>
             (Inl (''Failed to download file from remote: '' @ err), w',
              [EvCopyFrom client sourceFile targetFile (Inl err)])
         | (Inr written, w') \<Rightarrow>
             (case Download_loop P client targetFolder rest (transferredFiles + 1) w' of
                (res, w'', evs) \<Rightarrow>
                  (res, w'',
                   EvCopyFrom client sourceFile targetFile (Inr written)
                   # EvLog (sourceFile @ '' >> '' @ targetFile) # evs)))"

definition Download ::
  "'w prims \<Rightarrow> Client \<Rightarrow> string list \<Rightarrow> string \<Rightarrow> 'w \<Rightarrow> (string + 64 word) \<times> 'w \<times> event list" where
  "Download P client sourceFiles targetFolder w =
     (case Download_loop P client targetFolder sourceFiles 0 w of
        (res, w', evs) \<Rightarrow> (res, w', EvLog msg_downloading # evs))"

text \<open>
  \<^verbatim>\<open>main\<close> reads its configuration with \<^verbatim>\<open>os.Getenv\<close>, which gives the empty string for
  a variable that is not set. \<open>getenv\<close> is the environment after \<^verbatim>\<open>godotenv.Load()\<close>.
\<close>

type_synonym env = "string \<Rightarrow> string"

text \<open>The client configuration and the address of the target (lines 68-78).\<close>

definition targetConfig :: "'w prims \<Rightarrow> env \<Rightarrow> Duration \<Rightarrow> Signer \<Rightarrow> ClientConfig" where
  "targetConfig P getenv timeout targetSigner =
     \<lparr>Timeout = timeout,
      User = getenv ''USERNAME'',
      Auth = [targetSigner],
      HostKeyCallback = VerifyFingerprint (fingerprintSHA256 P) (getenv ''FINGERPRINT'')\<rparr>"

definition targetAddress :: "env \<Rightarrow> string" where
  "targetAddress getenv = getenv ''HOST'' @ '':'' @ getenv ''PORT''"

text \<open>The client configuration and the address of the proxy (lines 92-102).\<close>

definition proxyConfig :: "'w prims \<Rightarrow> env \<Rightarrow> Duration \<Rightarrow> Signer \<Rightarrow> ClientConfig" where
  "proxyConfig P getenv timeout proxySigner =
     \<lparr>Timeout = timeout,
      User = getenv ''PROXY_USERNAME'',
      Auth = [proxySigner],
      HostKeyCallback = VerifyFingerprint (fingerprintSHA256 P) (getenv ''PROXY_FINGERPRINT'')\<rparr>"

definition proxyAddress :: "env \<Rightarrow> string" where
  "proxyAddress getenv = getenv ''PROXY_HOST'' @ '':'' @ getenv ''PROXY_PORT''"

text \<open>
  \<^verbatim>\<open>main\<close>, lines 29-65: the configuration is parsed and the timer of the whole action
  is started. The result is the message of \<^verbatim>\<open>log.Fatalf\<close>, or the direction, the dial
  timeout and the signer of the target. The goroutine that waits for the timer is not
  part of the model: the model describes the runs in which the timer does not fire.
\<close>

definition main_config ::
  "'w prims \<Rightarrow> env \<Rightarrow> (string + string \<times> Duration \<times> Signer) \<times> event list" where
  "main_config P getenv =
     (case parseDuration P (getenv ''ACTION_TIMEOUT'') of
        Inl err \<Rightarrow> (Inl (''Failed to parse action timeout: '' @ err), [])
      | Inr actionTimeout \<Rightarrow>
          (let direction = getenv ''DIRECTION''
           in if direction \<noteq> DirectionDownload \<and> direction \<noteq> DirectionUpload then
                (Inl (''Failed to parse direction: ''
                      @ ''direction must be either upload or download''),
                 [EvTimer actionTimeout])
              else
                (case parseDuration P (getenv ''TIMEOUT'') of
                   Inl err \<Rightarrow>
                     (Inl (''Failed to parse timeout: '' @ err), [EvTimer actionTimeout])
                 | Inr timeout \<Rightarrow>
                     (let targetHost = getenv ''HOST''
                      in if targetHost = [] then
                           (Inl (''Failed to parse target host: ''
                                 @ ''target host must not be empty''),
                            [EvTimer actionTimeout])
                         else
                           (case parsePrivateKey P (getenv ''KEY'') of
                              Inl err \<Rightarrow>
                                (Inl (''Failed to parse proxy key: '' @ err),
                                 [EvTimer actionTimeout])
                            | Inr targetSigner \<Rightarrow>
                                (Inr (direction, timeout, targetSigner),
                                 [EvTimer actionTimeout]))))))"

text \<open>
  \<^verbatim>\<open>main\<close>, lines 67-125: the session to the target is opened, through the proxy when
  \<^verbatim>\<open>PROXY_HOST\<close> is not empty. The result is the message of \<^verbatim>\<open>log.Fatalf\<close>, or the
  client of the target together with the client of the proxy when there is one.
\<close>

definition main_connect ::
  "'w prims \<Rightarrow> env \<Rightarrow> Duration \<Rightarrow> Signer \<Rightarrow> 'w
     \<Rightarrow> (string + Client \<times> Client option) \<times> 'w \<times> event list" where
  "main_connect P getenv timeout targetSigner w =
     (let targetConfig = targetConfig P getenv timeout targetSigner;
          targetAddress = getenv ''HOST'' @ '':'' @ getenv ''PORT'';
          proxyHost = getenv ''PROXY_HOST''
      in if proxyHost \<noteq> [] then
           (case parsePrivateKey P (getenv ''PROXY_KEY'') of
              Inl err \<Rightarrow> (Inl (''Failed to parse proxy key: '' @ err), w, [])
            | Inr proxySigner \<Rightarrow>
                (let proxyConfig = proxyConfig P getenv timeout proxySigner;
                     proxyAddress = proxyHost @ '':'' @ getenv ''PROXY_PORT''
                 in case sshDial P w proxyAddress proxyConfig of
                      (Inl err, w1) \<Rightarrow>
                        (Inl (''Failed to connect to proxy: '' @ err), w1,
                         [EvSshDial proxyAddress proxyConfig (Inl err)])
                    | (Inr proxyClient, w1) \<Rightarrow>
                        (case clientDial P w1 proxyClient targetAddress of
                           (Inl err, w2) \<Rightarrow>
                             (Inl (''Failed to dial to target: '' @ err), w2,
                              [EvSshDial proxyAddress proxyConfig (Inr proxyClient),
                               EvClientDial proxyClient targetAddress (Inl err)])
                         | (Inr netConn, w2) \<Rightarrow>
                             (case newClientConn P w2 netConn targetAddress targetConfig of
                                (Inl err, w3) \<Rightarrow>
                                  (Inl (''new target conn error: '' @ err), w3,
                                   [EvSshDial proxyAddress proxyConfig (Inr proxyClient),
                                    EvClientDial proxyClient targetAddress (Inr netConn),
                                    EvNewClientConn netConn targetAddress targetConfig (Inl err)])
                              | (Inr targetClient, w3) \<Rightarrow>
                                  (Inr (targetClient, Some proxyClient), w3,
                                   [EvSshDial proxyAddress proxyConfig (Inr proxyClient),
                                    EvClientDial proxyClient targetAddress (Inr netConn),
                                    EvNewClientConn netConn targetAddress targetConfig
                                      (Inr targetClient)])))))
         else
           (case sshDial P w targetAddress targetConfig of
              (Inl err, w1) \<Rightarrow>
                (Inl (''Failed to connect to target: '' @ err), w1,
                 [EvSshDial targetAddress targetConfig (Inl err)])
            | (Inr targetClient, w1) \<Rightarrow>
                (Inr (targetClient, None), w1,
                 [EvSshDial targetAddress targetConfig (Inr targetClient)])))"

text \<open>
  \<^verbatim>\<open>main\<close>, lines 128-141: the transfer in the configured direction and the final line.
  When \<^verbatim>\<open>main\<close> returns, its deferred calls run, the last one first: the client of the
  target is closed (deferred at line 126), then the client of the proxy (deferred at
  line 107). \<^verbatim>\<open>log.Fatalf\<close> inside \<^verbatim>\<open>Upload\<close> or \<^verbatim>\<open>Download\<close> ends the process at once.
\<close>

definition main_transfer ::
  "'w prims \<Rightarrow> env \<Rightarrow> string \<Rightarrow> Client \<Rightarrow> Client option \<Rightarrow> 'w \<Rightarrow> outcome \<times> 'w \<times> event list" where
  "main_transfer P getenv direction targetClient proxyClient w =
     (let sourceFiles = strings_Split (getenv ''SOURCE'') (CHR 0x0A);
          targetFolder = trimSpace P (getenv ''TARGET'')
      in case (if direction = DirectionUpload
               then Upload P targetClient sourceFiles targetFolder w
               else (Inr 0, w, [])) of
           (Inl msg, w1, evs1) \<Rightarrow> (Fatal msg, w1, evs1)
         | (Inr n1, w1, evs1) \<Rightarrow>
             (case (if direction = DirectionDownload
                    then Download P targetClient sourceFiles targetFolder w1
                    else (Inr n1, w1, [])) of
                (Inl msg, w2, evs2) \<Rightarrow> (Fatal msg, w2, evs1 @ evs2)
              | (Inr transferredFiles, w2, evs2) \<Rightarrow>
                  (let w3 = clientClose P w2 targetClient
                   in case proxyClient of
                        None \<Rightarrow>
                          (Returned, w3,
                           evs1 @ evs2
                           @ [EvLog (msg_transferred transferredFiles), EvClose targetClient])
                      | Some pc \<Rightarrow>
                          (Returned, clientClose P w3 pc,
                           evs1 @ evs2
                           @ [EvLog (msg_transferred transferredFiles), EvClose targetClient,
                              EvClose pc]))))"

text \<open>The whole of \<^verbatim>\<open>main\<close>: how the process ends, the world it leaves, and its events.\<close>

definition main :: "'w prims \<Rightarrow> env \<Rightarrow> 'w \<Rightarrow> outcome \<times> 'w \<times> event list" where
  "main P getenv w =
     (case main_config P getenv of
        (Inl msg, evs0) \<Rightarrow> (Fatal msg, w, evs0)
      | (Inr (direction, timeout, targetSigner), evs0) \<Rightarrow>
          (case main_connect P getenv timeout targetSigner w of
             (Inl msg, w1, evs1) \<Rightarrow> (Fatal msg, w1, evs0 @ evs1)
           | (Inr (targetClient, proxyClient), w1, evs1) \<Rightarrow>
               (case main_transfer P getenv direction targetClient proxyClient w1 of
                  (out, w2, evs2) \<Rightarrow> (out, w2, evs0 @ evs1 @ evs2))))"

section \<open>A small world to run the program in\<close>

text \<open>
  The theorems below hold for every choice of the external operations. To run the program
  on concrete inputs, here is one choice. The world is the number of connections opened
  so far, which names the next one. A network is a list of the addresses that answer,
  each with the host key presented there, and a list of source paths whose copy fails.
  An SSH handshake with an address that answers presents its host key to the host-key
  callback of the configuration and fails when the callback rejects it. The fingerprint
  of a key is the key behind \<^verbatim>\<open>SHA256:\<close>; two durations and two keys parse.
\<close>

definition getenv_of :: "(string \<times> string) list \<Rightarrow> env" where
  "getenv_of vars name = (case map_of vars name of None \<Rightarrow> [] | Some v \<Rightarrow> v)"

definition demo_handshake ::
  "(string \<times> PublicKey) list \<Rightarrow> nat \<Rightarrow> string \<Rightarrow> ClientConfig \<Rightarrow> (string + Client) \<times> nat" where
  "demo_handshake hosts w addr cfg =
     (case map_of hosts addr of
        None \<Rightarrow> (Inl ''connection refused'', w)
      | Some key \<Rightarrow>
          (case HostKeyCallback cfg addr addr key of
             Some err \<Rightarrow> (Inl (''ssh: handshake failed: '' @ err), w)
           | None \<Rightarrow> (Inr (Client w), Suc w)))"

definition demo_copy :: "string list \<Rightarrow> nat \<Rightarrow> string \<Rightarrow> (string + 64 word) \<times> nat" where
  "demo_copy bad w src = (if src \<in> set bad then (Inl ''no such file'', w) else (Inr 0, w))"

definition demo_space :: "char \<Rightarrow> bool" where
  "demo_space c = (c = CHR '' '' \<or> c = CHR 0x09 \<or> c = CHR 0x0A \<or> c = CHR 0x0D)"

definition demo :: "(string \<times> PublicKey) list \<Rightarrow> string list \<Rightarrow> nat prims" where
  "demo hosts bad =
     \<lparr>parseDuration =
        (\<lambda>s. if s = ''30s'' then Inr 30000000000
              else if s = ''10m'' then Inr 600000000000
              else Inl ''time: invalid duration''),
      parsePrivateKey =
        (\<lambda>s. if s = ''target-key'' \<or> s = ''proxy-key'' then Inr (Signer s)
              else Inl ''ssh: no key found''),
      fingerprintSHA256 = (\<lambda>key. ''SHA256:'' @ key),
      trimSpace = (\<lambda>s. rev (dropWhile demo_space (rev (dropWhile demo_space s)))),
      sshDial = demo_handshake hosts,
      clientDial =
        (\<lambda>w client addr. if addr \<in> fst ` set hosts then (Inr (Conn w), Suc w)
                           else (Inl ''connect failed'', w)),
      newClientConn = (\<lambda>w conn. demo_handshake hosts w),
      clientClose = (\<lambda>w client. w),
      copyTo = (\<lambda>w client src dst. demo_copy bad w src),
      copyFrom = (\<lambda>w client src dst. demo_copy bad w src)\<rparr>"

text \<open>
  A direct upload of three files to a target, and the same through a proxy. The other
  environments used below change one variable of these.
\<close>

definition env_direct :: "(string \<times> string) list" where
  "env_direct =
     [(''ACTION_TIMEOUT'', ''10m''), (''TIMEOUT'', ''30s''), (''DIRECTION'', ''upload''),
      (''HOST'', ''target''), (''PORT'', ''22''), (''USERNAME'', ''deploy''),
      (''KEY'', ''target-key''), (''FINGERPRINT'', ''SHA256:T''),
      (''SOURCE'', ''/a/b/x.txt'' @ [CHR 0x0A] @ ''/c/y.txt'' @ [CHR 0x0A] @ ''z.txt''),
      (''TARGET'', ''/out'')]"

definition env_proxy :: "(string \<times> string) list" where
  "env_proxy =
     [(''PROXY_HOST'', ''jump''), (''PROXY_PORT'', ''2222''), (''PROXY_USERNAME'', ''hop''),
      (''PROXY_KEY'', ''proxy-key''), (''PROXY_FINGERPRINT'', ''SHA256:P'')] @ env_direct"

definition net_ok :: "(string \<times> PublicKey) list" where
  "net_ok = [(''target:22'', ''T''), (''jump:2222'', ''P'')]"

section \<open>Reading a transcript\<close>

text \<open>
  The events that set up a connection, the events that use the network at all, the copies
  attempted (source and destination, in order), the progress lines that a list of
  sources produces, and the sessions opened and closed.
\<close>

fun is_dial :: "event \<Rightarrow> bool" where
  "is_dial (EvSshDial addr cfg res) = True"
| "is_dial (EvClientDial client addr res) = True"
| "is_dial (EvNewClientConn conn addr cfg res) = True"
| "is_dial ev = False"

fun is_network :: "event \<Rightarrow> bool" where
  "is_network (EvTimer d) = False"
| "is_network (EvLog msg) = False"
| "is_network ev = True"

fun copies :: "event list \<Rightarrow> (string \<times> string) list" where
  "copies [] = []"
| "copies (EvCopyTo client src dst res # evs) = (src, dst) # copies evs"
| "copies (EvCopyFrom client src dst res # evs) = (src, dst) # copies evs"
| "copies (ev # evs) = copies evs"

fun logged :: "event list \<Rightarrow> string list" where
  "logged [] = []"
| "logged (EvLog msg # evs) = msg # logged evs"
| "logged (ev # evs) = logged evs"

fun opened :: "event list \<Rightarrow> Client list" where
  "opened [] = []"
| "opened (EvSshDial addr cfg (Inr client) # evs) = client # opened evs"
| "opened (EvNewClientConn conn addr cfg (Inr client) # evs) = client # opened evs"
| "opened (ev # evs) = opened evs"

fun closed :: "event list \<Rightarrow> Client list" where
  "closed [] = []"
| "closed (EvClose client # evs) = client # closed evs"
| "closed (ev # evs) = closed evs"

fun copy_results :: "event list \<Rightarrow> (string + 64 word) list" where
  "copy_results [] = []"
| "copy_results (EvCopyTo client src dst res # evs) = res # copy_results evs"
| "copy_results (EvCopyFrom client src dst res # evs) = res # copy_results evs"
| "copy_results (ev # evs) = copy_results evs"

text \<open>
  The SSH handshakes of a run, in order: the address and the host-key callback of the
  configuration that the handshake was given. \<^verbatim>\<open>ssh.Dial\<close> connects and shakes hands;
  \<^verbatim>\<open>ssh.NewClientConn\<close> shakes hands over a connection that exists. And the addresses
  that a run has tried to connect to, by any of the three operations.
\<close>

fun handshakes :: "event list \<Rightarrow> (string \<times> (string \<Rightarrow> Addr \<Rightarrow> PublicKey \<Rightarrow> string option)) list" where
  "handshakes [] = []"
| "handshakes (EvSshDial addr cfg res # evs) = (addr, HostKeyCallback cfg) # handshakes evs"
| "handshakes (EvNewClientConn conn addr cfg res # evs) =
     (addr, HostKeyCallback cfg) # handshakes evs"
| "handshakes (ev # evs) = handshakes evs"

fun dialled :: "event list \<Rightarrow> string list" where
  "dialled [] = []"
| "dialled (EvSshDial addr cfg res # evs) = addr # dialled evs"
| "dialled (EvClientDial client addr res # evs) = addr # dialled evs"
| "dialled (EvNewClientConn conn addr cfg res # evs) = addr # dialled evs"
| "dialled (ev # evs) = dialled evs"

fun is_transfer :: "event \<Rightarrow> bool" where
  "is_transfer (EvCopyTo client src dst res) = True"
| "is_transfer (EvCopyFrom client src dst res) = True"
| "is_transfer (EvLog msg) = True"
| "is_transfer ev = False"

text \<open>The events of the deferred calls that run when \<^verbatim>\<open>main\<close> returns.\<close>

definition deferred_closes :: "Client \<Rightarrow> Client option \<Rightarrow> event list" where
  "deferred_closes targetClient proxyClient =
     EvClose targetClient # (case proxyClient of None \<Rightarrow> [] | Some pc \<Rightarrow> [EvClose pc])"

text \<open>
  The destination that \<^verbatim>\<open>Upload\<close> and \<^verbatim>\<open>Download\<close> compute for a source (lines 161-162
  and 180-181), as a function of its own.
\<close>

definition destination :: "string \<Rightarrow> string \<Rightarrow> string" where
  "destination targetFolder sourceFile = path_Join [targetFolder, snd (path_Split sourceFile)]"

text \<open>The progress line that follows a successful copy (lines 166 and 185).\<close>

definition progress :: "string \<Rightarrow> string \<Rightarrow> string" where
  "progress targetFolder sourceFile = sourceFile @ '' >> '' @ destination targetFolder sourceFile"

section \<open>The identity verifier\<close>

text \<open>
  C1. For every expected fingerprint, host name, remote address and presented key, the
  callback made by \<^verbatim>\<open>VerifyFingerprint\<close> accepts (returns no error) exactly when the
  SHA-256 fingerprint of the key is the expected string, compared as byte strings; in every
  other case it returns the error \<^verbatim>\<open>fingerprint mismatch\<close>.
\<close>

theorem VerifyFingerprint_accepts_iff_equal:
  "(VerifyFingerprint fp expected hostname remote pubKey = None \<longleftrightarrow> fp pubKey = expected)
   \<and> (fp pubKey \<noteq> expected \<longrightarrow>
        VerifyFingerprint fp expected hostname remote pubKey = Some ''fingerprint mismatch'')"
  by (simp add: VerifyFingerprint_def)

theorem VerifyFingerprint_accepts_iff_equal_witness:
  "(\<lambda>key. ''SHA256:'' @ key) ''T'' \<noteq> ''SHA256:t''
   \<and> VerifyFingerprint (\<lambda>key. ''SHA256:'' @ key) ''SHA256:t'' ''target'' ''target:22'' ''T''
       = Some ''fingerprint mismatch''
   \<and> VerifyFingerprint (\<lambda>key. ''SHA256:'' @ key) ''SHA256:T'' ''target'' ''target:22'' ''T''
       = None"
  using VerifyFingerprint_accepts_iff_equal
          [of "\<lambda>key. ''SHA256:'' @ key" "''SHA256:t''" "''target''" "''target:22''" "''T''"]
        VerifyFingerprint_accepts_iff_equal
          [of "\<lambda>key. ''SHA256:'' @ key" "''SHA256:T''" "''target''" "''target:22''" "''T''"]
  by simp

section \<open>Paths\<close>

text \<open>\<^verbatim>\<open>path.Split\<close> cuts a path after its last slash.\<close>

lemma LastIndexByte_absent: "c \<notin> set xs \<Longrightarrow> LastIndexByte xs c = - 1"
  by (induction xs) (auto simp: Let_def)

lemma LastIndexByte_range: "- 1 \<le> LastIndexByte xs c \<and> LastIndexByte xs c < int (length xs)"
  by (induction xs) (auto simp: Let_def)

lemma LastIndexByte_last: "c \<notin> set ys \<Longrightarrow> LastIndexByte (xs @ c # ys) c = int (length xs)"
  by (induction xs) (auto simp: Let_def LastIndexByte_absent)

lemma LastIndexByte_tail: "c \<notin> set (drop (nat (LastIndexByte xs c + 1)) xs)"
proof (induction xs)
  case Nil
  then show ?case by simp
next
  case (Cons x xs)
  show ?case
  proof (cases "0 \<le> LastIndexByte xs c")
    case True
    then have "nat (LastIndexByte xs c + 1 + 1) = Suc (nat (LastIndexByte xs c + 1))" by simp
    with True Cons show ?thesis by (simp add: Let_def)
  next
    case False
    with LastIndexByte_range [of xs c] have "LastIndexByte xs c = - 1" by simp
    with Cons show ?thesis by (auto simp: Let_def)
  qed
qed

lemma LastIndexByte_head:
  "take (nat (LastIndexByte xs c + 1)) xs = [] \<or> last (take (nat (LastIndexByte xs c + 1)) xs) = c"
proof (induction xs)
  case Nil
  then show ?case by simp
next
  case (Cons x xs)
  show ?case
  proof (cases "0 \<le> LastIndexByte xs c")
    case True
    then have *: "nat (LastIndexByte xs c + 1 + 1) = Suc (nat (LastIndexByte xs c + 1))" by simp
    from True have "take (nat (LastIndexByte xs c + 1)) xs \<noteq> []"
      using LastIndexByte_range [of xs c] by (cases xs) auto
    with True Cons * show ?thesis by (simp add: Let_def)
  next
    case False
    with LastIndexByte_range [of xs c] have "LastIndexByte xs c = - 1" by simp
    then show ?thesis by (auto simp: Let_def)
  qed
qed

lemma path_Split_append: "fst (path_Split p) @ snd (path_Split p) = p"
  by (simp add: path_Split_def Let_def)

lemma path_Split_file_no_slash: "CHR ''/'' \<notin> set (snd (path_Split p))"
  using LastIndexByte_tail [of "CHR ''/''" p] by (simp add: path_Split_def Let_def)

lemma path_Split_dir: "fst (path_Split p) = [] \<or> last (fst (path_Split p)) = CHR ''/''"
  using LastIndexByte_head [of p "CHR ''/''"] by (simp add: path_Split_def Let_def)

lemma path_Split_dir_file:
  "CHR ''/'' \<notin> set file \<Longrightarrow> path_Split (dir @ CHR ''/'' # file) = (dir @ ''/'', file)"
proof -
  have "nat (int (length dir) + 1) = Suc (length dir)" by simp
  then show ?thesis if "CHR ''/'' \<notin> set file"
    using that by (simp add: path_Split_def Let_def LastIndexByte_last)
qed

lemma path_Split_bare: "CHR ''/'' \<notin> set file \<Longrightarrow> path_Split file = ([], file)"
  by (simp add: path_Split_def Let_def LastIndexByte_absent)

section \<open>The transfer loops\<close>

text \<open>
  What a loop has done when it ends: the copies it attempted are the sources in order, each
  with its destination, up to the first failure; when it returns, it has copied every
  source, printed one progress line for each, and counted them. A failed copy ends it with
  the message of that failure, after the progress lines of the copies before it.
\<close>

lemma Upload_loop_stop:
  "copyTo P w c s (destination f s) = (Inl err, w1) \<Longrightarrow>
   Upload_loop P c f (s # srcs) n w =
     (Inl (''Failed to upload file to remote: '' @ err), w1,
      [EvCopyTo c s (destination f s) (Inl err)])"
  by (simp add: destination_def)

lemma Upload_loop_next:
  "copyTo P w c s (destination f s) = (Inr b, w1) \<Longrightarrow>
   Upload_loop P c f srcs (n + 1) w1 = (res, w2, evs) \<Longrightarrow>
   Upload_loop P c f (s # srcs) n w =
     (res, w2, EvCopyTo c s (destination f s) (Inr b) # EvLog (progress f s) # evs)"
  by (simp add: destination_def progress_def Let_def)

lemma Upload_loop_copies:
  "Upload_loop P c f srcs n w = (res, w', evs) \<Longrightarrow>
     prefix (copies evs) (map (\<lambda>s. (s, destination f s)) srcs)
     \<and> (\<forall>m. res = Inr m \<longrightarrow>
          copies evs = map (\<lambda>s. (s, destination f s)) srcs
          \<and> logged evs = map (progress f) srcs
          \<and> m = n + of_nat (length srcs))"
proof (induction srcs arbitrary: n w res w' evs)
  case Nil
  then show ?case by auto
next
  case (Cons s srcs)
  obtain r w1 where step: "copyTo P w c s (destination f s) = (r, w1)"
    by (cases "copyTo P w c s (destination f s)") auto
  show ?case
  proof (cases r)
    case (Inl err)
    from Upload_loop_stop [of P w c s f err w1 srcs n] step Inl Cons.prems
    have "res = Inl (''Failed to upload file to remote: '' @ err)"
      and "evs = [EvCopyTo c s (destination f s) (Inl err)]"
      by simp_all
    then show ?thesis by simp
  next
    case (Inr b)
    obtain res2 w2 evs2 where run: "Upload_loop P c f srcs (n + 1) w1 = (res2, w2, evs2)"
      by (cases "Upload_loop P c f srcs (n + 1) w1") auto
    from Upload_loop_next [of P w c s f b w1 srcs n res2 w2 evs2] step Inr run Cons.prems
    have res: "res = res2"
      and evs: "evs = EvCopyTo c s (destination f s) (Inr b) # EvLog (progress f s) # evs2"
      by simp_all
    from Cons.IH [OF run] show ?thesis
      unfolding res evs by (auto simp: add.assoc)
  qed
qed

lemma Upload_loop_failure:
  "Upload_loop P c f srcs n w = (res, w', evs) \<Longrightarrow> k < length (copy_results evs) \<Longrightarrow>
   copy_results evs ! k = Inl err \<Longrightarrow>
     res = Inl (''Failed to upload file to remote: '' @ err)
     \<and> k < length srcs
     \<and> copies evs = map (\<lambda>s. (s, destination f s)) (take (Suc k) srcs)
     \<and> logged evs = map (progress f) (take k srcs)"
proof (induction srcs arbitrary: n w res w' evs k)
  case Nil
  then show ?case by simp
next
  case (Cons s srcs)
  obtain r w1 where step: "copyTo P w c s (destination f s) = (r, w1)"
    by (cases "copyTo P w c s (destination f s)") auto
  show ?case
  proof (cases r)
    case (Inl e)
    from Upload_loop_stop [of P w c s f e w1 srcs n] step Inl Cons.prems(1)
    have res: "res = Inl (''Failed to upload file to remote: '' @ e)"
      and evs: "evs = [EvCopyTo c s (destination f s) (Inl e)]"
      by simp_all
    from Cons.prems(2,3) have "k = 0" "e = err"
      unfolding evs by simp_all
    then show ?thesis
      unfolding res evs by simp
  next
    case (Inr b)
    obtain res2 w2 evs2 where run: "Upload_loop P c f srcs (n + 1) w1 = (res2, w2, evs2)"
      by (cases "Upload_loop P c f srcs (n + 1) w1") auto
    from Upload_loop_next [of P w c s f b w1 srcs n res2 w2 evs2] step Inr run Cons.prems(1)
    have res: "res = res2"
      and evs: "evs = EvCopyTo c s (destination f s) (Inr b) # EvLog (progress f s) # evs2"
      by simp_all
    from Cons.prems(2,3) obtain k' where k: "k = Suc k'"
      unfolding evs by (cases k) auto
    from Cons.prems(2,3) have "k' < length (copy_results evs2)" "copy_results evs2 ! k' = Inl err"
      unfolding evs k by simp_all
    from Cons.IH [OF run this] show ?thesis
      unfolding res evs k by simp
  qed
qed

lemma Download_loop_stop:
  "copyFrom P w c s (destination f s) = (Inl err, w1) \<Longrightarrow>
   Download_loop P c f (s # srcs) n w =
     (Inl (''Failed to download file from remote: '' @ err), w1,
      [EvCopyFrom c s (destination f s) (Inl err)])"
  by (simp add: destination_def)

lemma Download_loop_next:
  "copyFrom P w c s (destination f s) = (Inr b, w1) \<Longrightarrow>
   Download_loop P c f srcs (n + 1) w1 = (res, w2, evs) \<Longrightarrow>
   Download_loop P c f (s # srcs) n w =
     (res, w2, EvCopyFrom c s (destination f s) (Inr b) # EvLog (progress f s) # evs)"
  by (simp add: destination_def progress_def Let_def)

lemma Download_loop_copies:
  "Download_loop P c f srcs n w = (res, w', evs) \<Longrightarrow>
     prefix (copies evs) (map (\<lambda>s. (s, destination f s)) srcs)
     \<and> (\<forall>m. res = Inr m \<longrightarrow>
          copies evs = map (\<lambda>s. (s, destination f s)) srcs
          \<and> logged evs = map (progress f) srcs
          \<and> m = n + of_nat (length srcs))"
proof (induction srcs arbitrary: n w res w' evs)
  case Nil
  then show ?case by auto
next
  case (Cons s srcs)
  obtain r w1 where step: "copyFrom P w c s (destination f s) = (r, w1)"
    by (cases "copyFrom P w c s (destination f s)") auto
  show ?case
  proof (cases r)
    case (Inl err)
    from Download_loop_stop [of P w c s f err w1 srcs n] step Inl Cons.prems
    have "res = Inl (''Failed to download file from remote: '' @ err)"
      and "evs = [EvCopyFrom c s (destination f s) (Inl err)]"
      by simp_all
    then show ?thesis by simp
  next
    case (Inr b)
    obtain res2 w2 evs2 where run: "Download_loop P c f srcs (n + 1) w1 = (res2, w2, evs2)"
      by (cases "Download_loop P c f srcs (n + 1) w1") auto
    from Download_loop_next [of P w c s f b w1 srcs n res2 w2 evs2] step Inr run Cons.prems
    have res: "res = res2"
      and evs: "evs = EvCopyFrom c s (destination f s) (Inr b) # EvLog (progress f s) # evs2"
      by simp_all
    from Cons.IH [OF run] show ?thesis
      unfolding res evs by (auto simp: add.assoc)
  qed
qed

lemma Download_loop_failure:
  "Download_loop P c f srcs n w = (res, w', evs) \<Longrightarrow> k < length (copy_results evs) \<Longrightarrow>
   copy_results evs ! k = Inl err \<Longrightarrow>
     res = Inl (''Failed to download file from remote: '' @ err)
     \<and> k < length srcs
     \<and> copies evs = map (\<lambda>s. (s, destination f s)) (take (Suc k) srcs)
     \<and> logged evs = map (progress f) (take k srcs)"
proof (induction srcs arbitrary: n w res w' evs k)
  case Nil
  then show ?case by simp
next
  case (Cons s srcs)
  obtain r w1 where step: "copyFrom P w c s (destination f s) = (r, w1)"
    by (cases "copyFrom P w c s (destination f s)") auto
  show ?case
  proof (cases r)
    case (Inl e)
    from Download_loop_stop [of P w c s f e w1 srcs n] step Inl Cons.prems(1)
    have res: "res = Inl (''Failed to download file from remote: '' @ e)"
      and evs: "evs = [EvCopyFrom c s (destination f s) (Inl e)]"
      by simp_all
    from Cons.prems(2,3) have "k = 0" "e = err"
      unfolding evs by simp_all
    then show ?thesis
      unfolding res evs by simp
  next
    case (Inr b)
    obtain res2 w2 evs2 where run: "Download_loop P c f srcs (n + 1) w1 = (res2, w2, evs2)"
      by (cases "Download_loop P c f srcs (n + 1) w1") auto
    from Download_loop_next [of P w c s f b w1 srcs n res2 w2 evs2] step Inr run Cons.prems(1)
    have res: "res = res2"
      and evs: "evs = EvCopyFrom c s (destination f s) (Inr b) # EvLog (progress f s) # evs2"
      by simp_all
    from Cons.prems(2,3) obtain k' where k: "k = Suc k'"
      unfolding evs by (cases k) auto
    from Cons.prems(2,3) have "k' < length (copy_results evs2)" "copy_results evs2 ! k' = Inl err"
      unfolding evs k by simp_all
    from Cons.IH [OF run this] show ?thesis
      unfolding res evs k by simp
  qed
qed

text \<open>The equations that run the program on a concrete input.\<close>

lemmas eval_defs =
  Upload_def Download_def demo_def demo_copy_def destination_def path_Split_def path_Join_def
  Join_step_def path_Clean_def Clean_loop.simps(2) backtrack.simps Let_def

lemma length_copy_results: "length (copy_results evs) = length (copies evs)"
  by (induction evs rule: copies.induct) simp_all

lemma Upload_events:
  "Upload P c srcs f w = (res, w', evs) \<Longrightarrow>
   \<exists>evs0. evs = EvLog msg_uploading # evs0 \<and> Upload_loop P c f srcs 0 w = (res, w', evs0)"
  by (cases "Upload_loop P c f srcs 0 w") (auto simp: Upload_def)

lemma Download_events:
  "Download P c srcs f w = (res, w', evs) \<Longrightarrow>
   \<exists>evs0. evs = EvLog msg_downloading # evs0 \<and> Download_loop P c f srcs 0 w = (res, w', evs0)"
  by (cases "Download_loop P c f srcs 0 w") (auto simp: Download_def)

lemma Upload_failure:
  assumes "Upload P c srcs f w = (res, w', evs)"
    and "0 < k" and "k \<le> length (copy_results evs)" and "copy_results evs ! (k - 1) = Inl err"
  shows "res = Inl (''Failed to upload file to remote: '' @ err)
     \<and> k \<le> length srcs
     \<and> length (copy_results evs) = k
     \<and> copies evs = map (\<lambda>s. (s, destination f s)) (take k srcs)
     \<and> logged evs = msg_uploading # map (progress f) (take (k - 1) srcs)"
proof -
  from Upload_events [OF assms(1)] obtain evs0
    where evs: "evs = EvLog msg_uploading # evs0"
      and run: "Upload_loop P c f srcs 0 w = (res, w', evs0)"
    by blast
  from assms(2) obtain j where k: "k = Suc j" by (cases k) auto
  from assms(3,4) have "j < length (copy_results evs0)" "copy_results evs0 ! j = Inl err"
    unfolding evs k by simp_all
  from Upload_loop_failure [OF run this] show ?thesis
    unfolding evs k by (simp add: length_copy_results)
qed

lemma Download_failure:
  assumes "Download P c srcs f w = (res, w', evs)"
    and "0 < k" and "k \<le> length (copy_results evs)" and "copy_results evs ! (k - 1) = Inl err"
  shows "res = Inl (''Failed to download file from remote: '' @ err)
     \<and> k \<le> length srcs
     \<and> length (copy_results evs) = k
     \<and> copies evs = map (\<lambda>s. (s, destination f s)) (take k srcs)
     \<and> logged evs = msg_downloading # map (progress f) (take (k - 1) srcs)"
proof -
  from Download_events [OF assms(1)] obtain evs0
    where evs: "evs = EvLog msg_downloading # evs0"
      and run: "Download_loop P c f srcs 0 w = (res, w', evs0)"
    by blast
  from assms(2) obtain j where k: "k = Suc j" by (cases k) auto
  from assms(3,4) have "j < length (copy_results evs0)" "copy_results evs0 ! j = Inl err"
    unfolding evs k by simp_all
  from Download_loop_failure [OF run this] show ?thesis
    unfolding evs k by (simp add: length_copy_results)
qed

text \<open>
  C2, as the code has it. When the copy of the \<open>k\<close>-th source (counted from 1) fails,
  \<^verbatim>\<open>Upload\<close> and \<^verbatim>\<open>Download\<close> end the process with \<^verbatim>\<open>log.Fatalf\<close>, whose message
  names the cause: the failed copy is the last one attempted, so the copies attempted are
  those of the first \<open>k\<close> sources and no later source is touched, and the progress lines
  printed before are those of the first \<open>k - 1\<close> sources. The function does not return,
  so no count comes back from it: the message holds the error and nothing else.
\<close>

theorem copy_failure_aborts_transfer:
  "(Upload P client sourceFiles targetFolder w = (res, w', evs) \<and> 0 < k
      \<and> k \<le> length (copy_results evs) \<and> copy_results evs ! (k - 1) = Inl err \<longrightarrow>
        res = Inl (''Failed to upload file to remote: '' @ err)
        \<and> k \<le> length sourceFiles
        \<and> length (copy_results evs) = k
        \<and> copies evs = map (\<lambda>s. (s, destination targetFolder s)) (take k sourceFiles)
        \<and> logged evs = msg_uploading # map (progress targetFolder) (take (k - 1) sourceFiles))
   \<and> (Download P client sourceFiles targetFolder w = (res, w', evs) \<and> 0 < k
      \<and> k \<le> length (copy_results evs) \<and> copy_results evs ! (k - 1) = Inl err \<longrightarrow>
        res = Inl (''Failed to download file from remote: '' @ err)
        \<and> k \<le> length sourceFiles
        \<and> length (copy_results evs) = k
        \<and> copies evs = map (\<lambda>s. (s, destination targetFolder s)) (take k sourceFiles)
        \<and> logged evs = msg_downloading # map (progress targetFolder) (take (k - 1) sourceFiles))"
  using Upload_failure [of P client sourceFiles targetFolder w res w' evs k err]
        Download_failure [of P client sourceFiles targetFolder w res w' evs k err]
  by blast

theorem copy_failure_aborts_transfer_witness:
  "fst (Upload (demo net_ok [''/c/y.txt'']) (Client 0) [''/a/b/x.txt'', ''/c/y.txt'', ''z.txt''] ''/out'' 0)
     = Inl ''Failed to upload file to remote: no such file''
   \<and> copies (snd (snd (Upload (demo net_ok [''/c/y.txt'']) (Client 0)
                          [''/a/b/x.txt'', ''/c/y.txt'', ''z.txt''] ''/out'' 0)))
     = [(''/a/b/x.txt'', ''/out/x.txt''), (''/c/y.txt'', ''/out/y.txt'')]
   \<and> fst (Download (demo net_ok [''/c/y.txt'']) (Client 0) [''/a/b/x.txt'', ''/c/y.txt'', ''z.txt''] ''/out'' 0)
     = Inl ''Failed to download file from remote: no such file''
   \<and> logged (snd (snd (Download (demo net_ok [''/c/y.txt'']) (Client 0)
                          [''/a/b/x.txt'', ''/c/y.txt'', ''z.txt''] ''/out'' 0)))
     = [msg_downloading, ''/a/b/x.txt >> /out/x.txt'']"
proof -
  let ?P = "demo net_ok [''/c/y.txt'']"
  let ?srcs = "[''/a/b/x.txt'', ''/c/y.txt'', ''z.txt'']"
  let ?up = "[EvLog msg_uploading,
       EvCopyTo (Client 0) ''/a/b/x.txt'' ''/out/x.txt'' (Inr 0),
       EvLog ''/a/b/x.txt >> /out/x.txt'',
       EvCopyTo (Client 0) ''/c/y.txt'' ''/out/y.txt'' (Inl ''no such file'')]"
  let ?down = "[EvLog msg_downloading,
       EvCopyFrom (Client 0) ''/a/b/x.txt'' ''/out/x.txt'' (Inr 0),
       EvLog ''/a/b/x.txt >> /out/x.txt'',
       EvCopyFrom (Client 0) ''/c/y.txt'' ''/out/y.txt'' (Inl ''no such file'')]"
  have up: "Upload ?P (Client 0) ?srcs ''/out'' 0
      = (Inl ''Failed to upload file to remote: no such file'', 0, ?up)"
    by (simp add: eval_defs)
  have down: "Download ?P (Client 0) ?srcs ''/out'' 0
      = (Inl ''Failed to download file from remote: no such file'', 0, ?down)"
    by (simp add: eval_defs)
  have dest: "map (\<lambda>s. (s, destination ''/out'' s)) (take 2 ?srcs)
      = [(''/a/b/x.txt'', ''/out/x.txt''), (''/c/y.txt'', ''/out/y.txt'')]"
    by (simp add: eval_defs)
  have prog: "map (progress ''/out'') (take (2 - 1) ?srcs) = [''/a/b/x.txt >> /out/x.txt'']"
    by (simp add: eval_defs progress_def)
  from copy_failure_aborts_transfer
         [of ?P "Client 0" ?srcs "''/out''" 0 "Inl ''Failed to upload file to remote: no such file''"
             0 ?up 2 "''no such file''"] up dest
  have "copies ?up = [(''/a/b/x.txt'', ''/out/x.txt''), (''/c/y.txt'', ''/out/y.txt'')]"
    by simp
  moreover
  from copy_failure_aborts_transfer
         [of ?P "Client 0" ?srcs "''/out''" 0 "Inl ''Failed to download file from remote: no such file''"
             0 ?down 2 "''no such file''"] down prog
  have "logged ?down = [msg_downloading, ''/a/b/x.txt >> /out/x.txt'']"
    by simp
  ultimately show ?thesis
    unfolding up down by simp
qed

text \<open>
  C2 as the specification states it says that the count of the files transferred before the
  failure is reported together with the failure. It is not: in a run with three sources
  whose second copy fails, the process ends with the message of the failed copy, it has
  printed the opening line and one progress line, and none of these texts holds the
  digit 1.
\<close>

theorem copy_failure_reports_no_count:
  "fst (main (demo net_ok [''/c/y.txt'']) (getenv_of env_direct) 0)
     = Fatal ''Failed to upload file to remote: no such file''
   \<and> copy_results (snd (snd (main (demo net_ok [''/c/y.txt'']) (getenv_of env_direct) 0)))
     = [Inr 0, Inl ''no such file'']
   \<and> logged (snd (snd (main (demo net_ok [''/c/y.txt'']) (getenv_of env_direct) 0)))
     = [msg_uploading, ''/a/b/x.txt >> /out/x.txt'']
   \<and> \<not> (\<exists>msg \<in> set (''Failed to upload file to remote: no such file''
                        # [msg_uploading, ''/a/b/x.txt >> /out/x.txt'']).
          CHR ''1'' \<in> set msg)"
  by code_simp

section \<open>Destinations\<close>

lemma destination_drops_dir:
  "CHR ''/'' \<notin> set file \<Longrightarrow>
   destination targetFolder (dir @ CHR ''/'' # file) = destination targetFolder file"
  by (simp add: destination_def path_Split_dir_file path_Split_bare)

lemma Upload_copies:
  assumes "Upload P c srcs f w = (res, w', evs)"
  shows "prefix (copies evs) (map (\<lambda>s. (s, destination f s)) srcs)
     \<and> (\<forall>m. res = Inr m \<longrightarrow>
          copies evs = map (\<lambda>s. (s, destination f s)) srcs
          \<and> logged evs = msg_uploading # map (progress f) srcs
          \<and> m = of_nat (length srcs))"
proof -
  from Upload_events [OF assms] obtain evs0
    where evs: "evs = EvLog msg_uploading # evs0"
      and run: "Upload_loop P c f srcs 0 w = (res, w', evs0)"
    by blast
  from Upload_loop_copies [OF run] show ?thesis
    unfolding evs by simp
qed

lemma Download_copies:
  assumes "Download P c srcs f w = (res, w', evs)"
  shows "prefix (copies evs) (map (\<lambda>s. (s, destination f s)) srcs)
     \<and> (\<forall>m. res = Inr m \<longrightarrow>
          copies evs = map (\<lambda>s. (s, destination f s)) srcs
          \<and> logged evs = msg_downloading # map (progress f) srcs
          \<and> m = of_nat (length srcs))"
proof -
  from Download_events [OF assms] obtain evs0
    where evs: "evs = EvLog msg_downloading # evs0"
      and run: "Download_loop P c f srcs 0 w = (res, w', evs0)"
    by blast
  from Download_loop_copies [OF run] show ?thesis
    unfolding evs by simp
qed

text \<open>
  C3. The destination of a source is the join of the destination directory with the final
  component of the source: the source is a directory part, empty or ending in a slash,
  followed by that component, which holds no slash; the directory part has no influence on
  the destination. The copies that \<^verbatim>\<open>Upload\<close> and \<^verbatim>\<open>Download\<close> attempt are the sources
  with their destinations, in the order of the source list (all of them when the loop
  returns, a front part of them otherwise). The sources \<^verbatim>\<open>/a/b/x.txt\<close> and
  \<^verbatim>\<open>/c/y.txt\<close> with the directory \<^verbatim>\<open>/out\<close> give \<^verbatim>\<open>/out/x.txt\<close> and \<^verbatim>\<open>/out/y.txt\<close>.
\<close>

theorem destinations_flatten_in_order:
  "(fst (path_Split sourceFile) @ snd (path_Split sourceFile) = sourceFile
      \<and> (fst (path_Split sourceFile) = [] \<or> last (fst (path_Split sourceFile)) = CHR ''/'')
      \<and> CHR ''/'' \<notin> set (snd (path_Split sourceFile))
      \<and> destination targetFolder sourceFile
          = path_Join [targetFolder, snd (path_Split sourceFile)])
   \<and> (CHR ''/'' \<notin> set file \<longrightarrow>
         destination targetFolder (dir @ CHR ''/'' # file) = destination targetFolder file)
   \<and> (Upload P client sourceFiles targetFolder w = (res, w', evs) \<longrightarrow>
         prefix (copies evs) (map (\<lambda>s. (s, destination targetFolder s)) sourceFiles)
         \<and> (\<forall>n. res = Inr n \<longrightarrow>
               copies evs = map (\<lambda>s. (s, destination targetFolder s)) sourceFiles))
   \<and> (Download P client sourceFiles targetFolder w = (res, w', evs) \<longrightarrow>
         prefix (copies evs) (map (\<lambda>s. (s, destination targetFolder s)) sourceFiles)
         \<and> (\<forall>n. res = Inr n \<longrightarrow>
               copies evs = map (\<lambda>s. (s, destination targetFolder s)) sourceFiles))
   \<and> map (destination ''/out'') [''/a/b/x.txt'', ''/c/y.txt''] = [''/out/x.txt'', ''/out/y.txt'']"
proof -
  have "map (destination ''/out'') [''/a/b/x.txt'', ''/c/y.txt''] = [''/out/x.txt'', ''/out/y.txt'']"
    by (simp add: eval_defs)
  moreover have "destination targetFolder sourceFile
      = path_Join [targetFolder, snd (path_Split sourceFile)]"
    by (simp add: destination_def)
  ultimately show ?thesis
    using path_Split_append [of sourceFile] path_Split_dir [of sourceFile]
      path_Split_file_no_slash [of sourceFile]
      destination_drops_dir [of "file" targetFolder dir]
      Upload_copies [of P client sourceFiles targetFolder w res w' evs]
      Download_copies [of P client sourceFiles targetFolder w res w' evs]
    by blast
qed

theorem destinations_flatten_in_order_witness:
  "CHR ''/'' \<notin> set ''x.txt''
   \<and> destination ''/out'' (''/a/b'' @ CHR ''/'' # ''x.txt'') = destination ''/out'' ''x.txt''
   \<and> fst (Upload (demo net_ok []) (Client 0) [''/a/b/x.txt'', ''/c/y.txt''] ''/out'' 0) = Inr 2
   \<and> copies (snd (snd (Upload (demo net_ok []) (Client 0) [''/a/b/x.txt'', ''/c/y.txt''] ''/out'' 0)))
       = [(''/a/b/x.txt'', ''/out/x.txt''), (''/c/y.txt'', ''/out/y.txt'')]
   \<and> fst (Download (demo net_ok []) (Client 0) [''/a/b/x.txt'', ''/c/y.txt''] ''/out'' 0) = Inr 2
   \<and> copies (snd (snd (Download (demo net_ok []) (Client 0) [''/a/b/x.txt'', ''/c/y.txt''] ''/out'' 0)))
       = [(''/a/b/x.txt'', ''/out/x.txt''), (''/c/y.txt'', ''/out/y.txt'')]"
proof -
  let ?P = "demo net_ok []"
  let ?srcs = "[''/a/b/x.txt'', ''/c/y.txt'']"
  let ?up = "[EvLog msg_uploading,
       EvCopyTo (Client 0) ''/a/b/x.txt'' ''/out/x.txt'' (Inr 0),
       EvLog ''/a/b/x.txt >> /out/x.txt'',
       EvCopyTo (Client 0) ''/c/y.txt'' ''/out/y.txt'' (Inr 0),
       EvLog ''/c/y.txt >> /out/y.txt'']"
  let ?down = "[EvLog msg_downloading,
       EvCopyFrom (Client 0) ''/a/b/x.txt'' ''/out/x.txt'' (Inr 0),
       EvLog ''/a/b/x.txt >> /out/x.txt'',
       EvCopyFrom (Client 0) ''/c/y.txt'' ''/out/y.txt'' (Inr 0),
       EvLog ''/c/y.txt >> /out/y.txt'']"
  have up: "Upload ?P (Client 0) ?srcs ''/out'' 0 = (Inr 2, 0, ?up)"
    by (simp add: eval_defs)
  have down: "Download ?P (Client 0) ?srcs ''/out'' 0 = (Inr 2, 0, ?down)"
    by (simp add: eval_defs)
  have slash: "CHR ''/'' \<notin> set ''x.txt''"
    by simp
  have dest: "map (\<lambda>s. (s, destination ''/out'' s)) ?srcs
      = [(''/a/b/x.txt'', ''/out/x.txt''), (''/c/y.txt'', ''/out/y.txt'')]"
    by (simp add: eval_defs)
  from destinations_flatten_in_order
         [of "''/a/b/x.txt''" "''/out''" "''x.txt''" "''/a/b''" ?P "Client 0" ?srcs 0 "Inr 2" 0 ?up]
       slash up
  have "destination ''/out'' (''/a/b'' @ CHR ''/'' # ''x.txt'') = destination ''/out'' ''x.txt''"
    and "copies ?up = map (\<lambda>s. (s, destination ''/out'' s)) ?srcs"
    by blast+
  moreover
  from destinations_flatten_in_order
         [of "''/a/b/x.txt''" "''/out''" "''x.txt''" "''/a/b''" ?P "Client 0" ?srcs 0 "Inr 2" 0 ?down]
       down
  have "copies ?down = map (\<lambda>s. (s, destination ''/out'' s)) ?srcs"
    by blast
  ultimately show ?thesis
    unfolding up down dest using slash by simp
qed

section \<open>The transfer phase\<close>

text \<open>
  The loops produce copy events and log lines only. The transfer phase of \<^verbatim>\<open>main\<close>
  runs one of them: when it fails the process ends there, and when it returns the final line
  is printed and the deferred calls close the sessions.
\<close>

lemma copies_append: "copies (xs @ ys) = copies xs @ copies ys"
  by (induction xs rule: copies.induct) simp_all

lemma logged_append: "logged (xs @ ys) = logged xs @ logged ys"
  by (induction xs rule: logged.induct) simp_all

lemma opened_append: "opened (xs @ ys) = opened xs @ opened ys"
  by (induction xs rule: opened.induct) simp_all

lemma closed_append: "closed (xs @ ys) = closed xs @ closed ys"
  by (induction xs rule: closed.induct) simp_all

lemma transfer_events_quiet:
  "list_all is_transfer evs \<Longrightarrow>
   filter is_dial evs = [] \<and> opened evs = [] \<and> closed evs = []"
proof (induction evs)
  case Nil
  then show ?case by simp
next
  case (Cons ev evs)
  then show ?case by (cases ev) simp_all
qed

lemma Upload_loop_transfer:
  "Upload_loop P c f srcs n w = (res, w', evs) \<Longrightarrow> list_all is_transfer evs"
proof (induction srcs arbitrary: n w res w' evs)
  case Nil
  then show ?case by auto
next
  case (Cons s srcs)
  obtain r w1 where step: "copyTo P w c s (destination f s) = (r, w1)"
    by (cases "copyTo P w c s (destination f s)") auto
  show ?case
  proof (cases r)
    case (Inl err)
    from Upload_loop_stop [of P w c s f err w1 srcs n] step Inl Cons.prems
    have "evs = [EvCopyTo c s (destination f s) (Inl err)]"
      by simp
    then show ?thesis by simp
  next
    case (Inr b)
    obtain res2 w2 evs2 where run: "Upload_loop P c f srcs (n + 1) w1 = (res2, w2, evs2)"
      by (cases "Upload_loop P c f srcs (n + 1) w1") auto
    from Upload_loop_next [of P w c s f b w1 srcs n res2 w2 evs2] step Inr run Cons.prems
    have evs: "evs = EvCopyTo c s (destination f s) (Inr b) # EvLog (progress f s) # evs2"
      by simp
    from Cons.IH [OF run] show ?thesis
      unfolding evs by simp
  qed
qed

lemma Upload_transfer:
  "Upload P c srcs f w = (res, w', evs) \<Longrightarrow> list_all is_transfer evs"
  using Upload_events [of P c srcs f w res w' evs] Upload_loop_transfer [of P c f srcs 0 w res w']
  by auto

lemma Download_loop_transfer:
  "Download_loop P c f srcs n w = (res, w', evs) \<Longrightarrow> list_all is_transfer evs"
proof (induction srcs arbitrary: n w res w' evs)
  case Nil
  then show ?case by auto
next
  case (Cons s srcs)
  obtain r w1 where step: "copyFrom P w c s (destination f s) = (r, w1)"
    by (cases "copyFrom P w c s (destination f s)") auto
  show ?case
  proof (cases r)
    case (Inl err)
    from Download_loop_stop [of P w c s f err w1 srcs n] step Inl Cons.prems
    have "evs = [EvCopyFrom c s (destination f s) (Inl err)]"
      by simp
    then show ?thesis by simp
  next
    case (Inr b)
    obtain res2 w2 evs2 where run: "Download_loop P c f srcs (n + 1) w1 = (res2, w2, evs2)"
      by (cases "Download_loop P c f srcs (n + 1) w1") auto
    from Download_loop_next [of P w c s f b w1 srcs n res2 w2 evs2] step Inr run Cons.prems
    have evs: "evs = EvCopyFrom c s (destination f s) (Inr b) # EvLog (progress f s) # evs2"
      by simp
    from Cons.IH [OF run] show ?thesis
      unfolding evs by simp
  qed
qed

lemma Download_transfer:
  "Download P c srcs f w = (res, w', evs) \<Longrightarrow> list_all is_transfer evs"
  using Download_events [of P c srcs f w res w' evs] Download_loop_transfer [of P c f srcs 0 w res w']
  by auto

lemma Directions_differ: "DirectionUpload \<noteq> DirectionDownload"
  by (simp add: DirectionUpload_def DirectionDownload_def)

lemma main_transfer_upload:
  assumes "main_transfer P getenv DirectionUpload tc pc w = (out, w', evs)"
  shows "\<exists>res w1 evs1.
           Upload P tc (strings_Split (getenv ''SOURCE'') (CHR 0x0A))
             (trimSpace P (getenv ''TARGET'')) w = (res, w1, evs1)
           \<and> (case res of
                 Inl msg \<Rightarrow> out = Fatal msg \<and> evs = evs1
               | Inr n \<Rightarrow> out = Returned
                          \<and> evs = evs1 @ EvLog (msg_transferred n) # deferred_closes tc pc)"
proof -
  obtain res w1 evs1
    where up: "Upload P tc (strings_Split (getenv ''SOURCE'') (CHR 0x0A))
                 (trimSpace P (getenv ''TARGET'')) w = (res, w1, evs1)"
    by (cases "Upload P tc (strings_Split (getenv ''SOURCE'') (CHR 0x0A))
                 (trimSpace P (getenv ''TARGET'')) w") auto
  from assms up have "case res of
                 Inl msg \<Rightarrow> out = Fatal msg \<and> evs = evs1
               | Inr n \<Rightarrow> out = Returned
                          \<and> evs = evs1 @ EvLog (msg_transferred n) # deferred_closes tc pc"
    by (auto simp: main_transfer_def Let_def Directions_differ deferred_closes_def
             split: sum.splits option.splits)
  with up show ?thesis by blast
qed

lemma main_transfer_download:
  assumes "main_transfer P getenv DirectionDownload tc pc w = (out, w', evs)"
  shows "\<exists>res w1 evs1.
           Download P tc (strings_Split (getenv ''SOURCE'') (CHR 0x0A))
             (trimSpace P (getenv ''TARGET'')) w = (res, w1, evs1)
           \<and> (case res of
                 Inl msg \<Rightarrow> out = Fatal msg \<and> evs = evs1
               | Inr n \<Rightarrow> out = Returned
                          \<and> evs = evs1 @ EvLog (msg_transferred n) # deferred_closes tc pc)"
proof -
  obtain res w1 evs1
    where down: "Download P tc (strings_Split (getenv ''SOURCE'') (CHR 0x0A))
                 (trimSpace P (getenv ''TARGET'')) w = (res, w1, evs1)"
    by (cases "Download P tc (strings_Split (getenv ''SOURCE'') (CHR 0x0A))
                 (trimSpace P (getenv ''TARGET'')) w") auto
  from assms down have "case res of
                 Inl msg \<Rightarrow> out = Fatal msg \<and> evs = evs1
               | Inr n \<Rightarrow> out = Returned
                          \<and> evs = evs1 @ EvLog (msg_transferred n) # deferred_closes tc pc"
    using Directions_differ
    by (auto simp: main_transfer_def Let_def deferred_closes_def
             split: sum.splits option.splits)
  with down show ?thesis by blast
qed

section \<open>The empty source\<close>

text \<open>
  A slash at the end of a path is an empty element, which \<^verbatim>\<open>path.Clean\<close> drops. The
  join of a directory with the empty name is therefore the cleaned directory.
\<close>

lemma dropWhile_slash: "dropWhile (\<lambda>x. x \<noteq> c) (cs @ [c]) = dropWhile (\<lambda>x. x \<noteq> c) cs @ [c]"
  by (induction cs) simp_all

lemma takeWhile_slash: "takeWhile (\<lambda>x. x \<noteq> c) (cs @ [c]) = takeWhile (\<lambda>x. x \<noteq> c) cs"
  by (induction cs) simp_all

lemma Clean_loop_trailing_slash:
  "Clean_loop rooted (rest @ ''/'') out dotdot = Clean_loop rooted rest out dotdot"
proof (induction rooted rest out dotdot rule: Clean_loop.induct)
  case (1 rooted out dotdot)
  show ?case by (simp add: Clean_loop.simps(2))
next
  case (2 rooted c cs out dotdot)
  define D where "D xs \<longleftrightarrow> xs = [] \<or> hd xs = CHR ''/''" for xs :: string
  define DD where "DD xs \<longleftrightarrow>
    xs \<noteq> [] \<and> hd xs = CHR ''.'' \<and> (tl xs = [] \<or> hd (tl xs) = CHR ''/'')" for xs :: string
  have D: "D (cs @ ''/'') = D cs"
    unfolding D_def by (cases cs) simp_all
  have DD: "DD (cs @ ''/'') = DD cs"
  proof (cases cs)
    case Nil
    then show ?thesis unfolding DD_def by simp
  next
    case (Cons x xs)
    then show ?thesis unfolding DD_def by (cases xs) simp_all
  qed
  have tl: "tl (cs @ ''/'') = tl cs @ ''/''" if "cs \<noteq> []"
    using that by (cases cs) simp_all
  have slash: "Clean_loop rooted (c # xs) out dotdot = Clean_loop rooted xs out dotdot"
    if "c = CHR ''/''" for xs
    using that by (simp add: Clean_loop.simps(2))
  have dot: "Clean_loop rooted (c # xs) out dotdot = Clean_loop rooted xs out dotdot"
    if "c = CHR ''.''" "D xs" for xs
  proof -
    from that have n1: "(c = CHR ''/'') = False"
      and y2: "(c = CHR ''.'' \<and> (xs = [] \<or> hd xs = CHR ''/'')) = True"
      unfolding D_def by simp_all
    show ?thesis
      by (subst Clean_loop.simps(2)) (simp only: n1 y2 if_False if_True)
  qed
  have dotdot: "Clean_loop rooted (c # xs) out dotdot =
      (if dotdot < length out then
         Clean_loop rooted (tl xs) (take (backtrack out (length out - 1) dotdot) out) dotdot
       else if \<not> rooted then
         Clean_loop rooted (tl xs) ((if 0 < length out then out @ ''/'' else out) @ ''..'')
           (length ((if 0 < length out then out @ ''/'' else out) @ ''..''))
       else Clean_loop rooted (tl xs) out dotdot)"
    if "c = CHR ''.''" "\<not> D xs" "DD xs" for xs
  proof -
    from that have n1: "(c = CHR ''/'') = False"
      and n2: "(c = CHR ''.'' \<and> (xs = [] \<or> hd xs = CHR ''/'')) = False"
      and y3: "(c = CHR ''.'' \<and> xs \<noteq> [] \<and> hd xs = CHR ''.''
              \<and> (tl xs = [] \<or> hd (tl xs) = CHR ''/'')) = True"
      unfolding D_def DD_def by simp_all
    show ?thesis
      by (subst Clean_loop.simps(2)) (simp only: n1 n2 y3 if_False if_True Let_def)
  qed
  have elem: "Clean_loop rooted (c # xs) out dotdot =
      Clean_loop rooted (dropWhile (\<lambda>x. x \<noteq> CHR ''/'') xs)
        ((if rooted \<and> length out \<noteq> 1 \<or> \<not> rooted \<and> length out \<noteq> 0 then out @ ''/'' else out)
         @ c # takeWhile (\<lambda>x. x \<noteq> CHR ''/'') xs) dotdot"
    if "c \<noteq> CHR ''/''" "\<not> (c = CHR ''.'' \<and> D xs)" "\<not> (c = CHR ''.'' \<and> DD xs)" for xs
  proof -
    from that have n1: "(c = CHR ''/'') = False"
      and n2: "(c = CHR ''.'' \<and> (xs = [] \<or> hd xs = CHR ''/'')) = False"
      and n3: "(c = CHR ''.'' \<and> xs \<noteq> [] \<and> hd xs = CHR ''.''
                 \<and> (tl xs = [] \<or> hd (tl xs) = CHR ''/'')) = False"
      unfolding D_def DD_def by simp_all
    show ?thesis
      by (subst Clean_loop.simps(2)) (simp only: n1 n2 n3 if_False Let_def)
  qed
  consider (a) "c = CHR ''/''"
    | (b) "c = CHR ''.''" "D cs"
    | (c) "c = CHR ''.''" "\<not> D cs" "DD cs"
    | (d) "c \<noteq> CHR ''/''" "\<not> (c = CHR ''.'' \<and> D cs)" "\<not> (c = CHR ''.'' \<and> DD cs)"
    by blast
  then show ?case
  proof cases
    case a
    with 2(1) slash [of "cs @ ''/''"] slash [of cs] show ?thesis by simp
  next
    case b
    then have "c \<noteq> CHR ''/''" by simp
    from 2(2) [OF this] b have "Clean_loop rooted (cs @ ''/'') out dotdot = Clean_loop rooted cs out dotdot"
      unfolding D_def by simp
    with b D dot [of "cs @ ''/''"] dot [of cs] show ?thesis by simp
  next
    case c
    then have n1: "c \<noteq> CHR ''/''" and n2: "\<not> (c = CHR ''.'' \<and> (cs = [] \<or> hd cs = CHR ''/''))"
      and y3: "c = CHR ''.'' \<and> cs \<noteq> [] \<and> hd cs = CHR ''.'' \<and> (tl cs = [] \<or> hd (tl cs) = CHR ''/'')"
      unfolding D_def DD_def by simp_all
    from c have cs: "cs \<noteq> []" unfolding DD_def by simp
    note ih1 = 2(3) [OF n1 n2 y3] and ih2 = 2(4) [OF n1 n2 y3] and ih3 = 2(5) [OF n1 n2 y3]
    have "Clean_loop rooted (c # (cs @ ''/'')) out dotdot = Clean_loop rooted (c # cs) out dotdot"
      unfolding dotdot [of "cs @ ''/''", OF c(1) c(2) [folded D] c(3) [folded DD]]
        dotdot [of cs, OF c] tl [OF cs]
      using ih1 ih2 ih3 by (simp add: Let_def)
    then show ?thesis by simp
  next
    case d
    then have n1: "c \<noteq> CHR ''/''" and n2: "\<not> (c = CHR ''.'' \<and> (cs = [] \<or> hd cs = CHR ''/''))"
      and n3: "\<not> (c = CHR ''.'' \<and> cs \<noteq> [] \<and> hd cs = CHR ''.'' \<and> (tl cs = [] \<or> hd (tl cs) = CHR ''/''))"
      unfolding D_def DD_def by simp_all
    note ih = 2(6) [OF n1 n2 n3 refl]
    have "Clean_loop rooted (c # (cs @ ''/'')) out dotdot = Clean_loop rooted (c # cs) out dotdot"
      unfolding elem [of "cs @ ''/''", OF d(1) d(2) [folded D] d(3) [folded DD]] elem [of cs, OF d]
        dropWhile_slash takeWhile_slash
      using ih by simp
    then show ?thesis by simp
  qed
qed

lemma path_Clean_trailing_slash: "p \<noteq> [] \<Longrightarrow> path_Clean (p @ ''/'') = path_Clean p"
  by (simp add: path_Clean_def Let_def hd_append2 Clean_loop_trailing_slash)

lemma destination_empty_source:
  "destination targetFolder [] = (if targetFolder = [] then [] else path_Clean targetFolder)"
  by (simp add: destination_def path_Split_def path_Join_def Join_step_def
        path_Clean_trailing_slash)

lemma strings_Split_nonempty: "strings_Split s sep \<noteq> []"
  by (induction s) (auto split: list.splits)

lemma Upload_single:
  assumes "Upload P c [s] f w = (res, w', evs)"
  shows "copies evs = [(s, destination f s)]"
proof -
  from Upload_events [OF assms] obtain evs0
    where evs: "evs = EvLog msg_uploading # evs0"
      and run: "Upload_loop P c f [s] 0 w = (res, w', evs0)"
    by blast
  obtain r w1 where step: "copyTo P w c s (destination f s) = (r, w1)"
    by (cases "copyTo P w c s (destination f s)") auto
  have "copies evs0 = [(s, destination f s)]"
  proof (cases r)
    case (Inl err)
    note eq = Upload_loop_stop [OF step [unfolded Inl], of "[]" 0]
    from run [unfolded eq] show ?thesis by auto
  next
    case (Inr b)
    have nil: "Upload_loop P c f [] (0 + 1) w1 = (Inr (0 + 1), w1, [])"
      by simp
    note eq = Upload_loop_next [OF step [unfolded Inr] nil]
    from run [unfolded eq] show ?thesis by auto
  qed
  then show ?thesis unfolding evs by simp
qed

lemma Download_single:
  assumes "Download P c [s] f w = (res, w', evs)"
  shows "copies evs = [(s, destination f s)]"
proof -
  from Download_events [OF assms] obtain evs0
    where evs: "evs = EvLog msg_downloading # evs0"
      and run: "Download_loop P c f [s] 0 w = (res, w', evs0)"
    by blast
  obtain r w1 where step: "copyFrom P w c s (destination f s) = (r, w1)"
    by (cases "copyFrom P w c s (destination f s)") auto
  have "copies evs0 = [(s, destination f s)]"
  proof (cases r)
    case (Inl err)
    note eq = Download_loop_stop [OF step [unfolded Inl], of "[]" 0]
    from run [unfolded eq] show ?thesis by auto
  next
    case (Inr b)
    have nil: "Download_loop P c f [] (0 + 1) w1 = (Inr (0 + 1), w1, [])"
      by simp
    note eq = Download_loop_next [OF step [unfolded Inr] nil]
    from run [unfolded eq] show ?thesis by auto
  qed
  then show ?thesis unfolding evs by simp
qed

lemma copies_deferred_closes: "copies (deferred_closes tc pc) = []"
  by (simp add: deferred_closes_def split: option.splits)

lemma main_transfer_empty_source:
  assumes "getenv ''SOURCE'' = []"
    and "direction = DirectionUpload \<or> direction = DirectionDownload"
    and "main_transfer P getenv direction tc pc w = (out, w', evs)"
  shows "copies evs = [([], destination (trimSpace P (getenv ''TARGET'')) [])]"
proof -
  from assms(2) show ?thesis
  proof
    assume up: "direction = DirectionUpload"
    from main_transfer_upload [OF assms(3) [unfolded up]] assms(1)
    obtain res w1 evs1
      where run: "Upload P tc [[]] (trimSpace P (getenv ''TARGET'')) w = (res, w1, evs1)"
        and evs: "case res of Inl msg \<Rightarrow> out = Fatal msg \<and> evs = evs1
                  | Inr n \<Rightarrow> out = Returned
                      \<and> evs = evs1 @ EvLog (msg_transferred n) # deferred_closes tc pc"
      by auto
    from Upload_single [OF run] evs show ?thesis
      by (cases res) (simp_all add: copies_append copies_deferred_closes)
  next
    assume down: "direction = DirectionDownload"
    from main_transfer_download [OF assms(3) [unfolded down]] assms(1)
    obtain res w1 evs1
      where run: "Download P tc [[]] (trimSpace P (getenv ''TARGET'')) w = (res, w1, evs1)"
        and evs: "case res of Inl msg \<Rightarrow> out = Fatal msg \<and> evs = evs1
                  | Inr n \<Rightarrow> out = Returned
                      \<and> evs = evs1 @ EvLog (msg_transferred n) # deferred_closes tc pc"
      by auto
    from Download_single [OF run] evs show ?thesis
      by (cases res) (simp_all add: copies_append copies_deferred_closes)
  qed
qed

text \<open>The equations that run \<^verbatim>\<open>main\<close> in the small world.\<close>

lemmas run_defs = main_def main_config_def main_connect_def main_transfer_def
  targetConfig_def proxyConfig_def getenv_of_def env_direct_def env_proxy_def net_ok_def
  demo_handshake_def VerifyFingerprint_def DirectionUpload_def DirectionDownload_def
  demo_space_def

text \<open>
  C10. Splitting at newlines always gives at least one piece, and the empty string gives
  the one empty piece, so the loop never runs over an empty list. With an empty
  \<^verbatim>\<open>SOURCE\<close> the transfer phase attempts exactly one copy: its source is the empty path
  and its destination is the join of the destination directory with the empty name, which
  is the destination directory itself, as \<^verbatim>\<open>path.Join\<close> writes it (cleaned; the empty
  string when the directory is empty).
\<close>

theorem empty_source_copies_once:
  "strings_Split s sep \<noteq> []
   \<and> strings_Split [] sep = [[]]
   \<and> destination targetFolder [] = (if targetFolder = [] then [] else path_Clean targetFolder)
   \<and> (getenv ''SOURCE'' = [] \<and> (direction = DirectionUpload \<or> direction = DirectionDownload)
        \<and> main_transfer P getenv direction targetClient proxyClient w = (out, w', evs) \<longrightarrow>
          copies evs = [([], destination (trimSpace P (getenv ''TARGET'')) [])])"
  using strings_Split_nonempty [of s sep] destination_empty_source [of targetFolder]
    main_transfer_empty_source [of getenv direction P targetClient proxyClient w out w' evs]
  by simp

theorem empty_source_copies_once_witness:
  "getenv_of [(''TARGET'', ''/out'')] ''SOURCE'' = []
   \<and> copies (snd (snd (main_transfer (demo net_ok []) (getenv_of [(''TARGET'', ''/out'')])
                          DirectionUpload (Client 0) None 0)))
       = [([], ''/out'')]"
proof -
  let ?getenv = "getenv_of [(''TARGET'', ''/out'')]"
  let ?evs = "[EvLog msg_uploading, EvCopyTo (Client 0) [] ''/out'' (Inr 0),
               EvLog '' >> /out'', EvLog (msg_transferred 1), EvClose (Client 0)]"
  have src: "?getenv ''SOURCE'' = []"
    by (simp add: getenv_of_def)
  have run: "main_transfer (demo net_ok []) ?getenv DirectionUpload (Client 0) None 0
      = (Returned, 0, ?evs)"
    by (simp add: run_defs eval_defs)
  have dest: "destination (trimSpace (demo net_ok []) (?getenv ''TARGET'')) [] = ''/out''"
    by (simp add: run_defs eval_defs)
  from empty_source_copies_once
         [of "[]" "CHR 0x0A" "''/out''" ?getenv DirectionUpload "demo net_ok []" "Client 0" None 0
             Returned 0 ?evs]
       src run dest
  have "copies ?evs = [([], ''/out'')]"
    by simp
  with src show ?thesis
    unfolding run by simp
qed

text \<open>
  The directory comes out of the join in its clean form: \<^verbatim>\<open>/out\<close> and \<^verbatim>\<open>/out/\<close>, two
  spellings of one directory, both give \<^verbatim>\<open>/out\<close>.
\<close>

lemma destination_trailing_slash_examples:
  "destination ''/out'' [] = ''/out'' \<and> destination ''/out/'' [] = ''/out''"
  by (simp add: eval_defs)

section \<open>The phases of main\<close>

text \<open>
  What each phase of \<^verbatim>\<open>main\<close> can leave in the transcript. The transfer phase opens
  nothing and connects to nothing, and closes the sessions only when it returns. Parsing the
  configuration does nothing but start the timer.
\<close>

lemma handshakes_append: "handshakes (xs @ ys) = handshakes xs @ handshakes ys"
  by (induction xs rule: handshakes.induct) simp_all

lemma dialled_append: "dialled (xs @ ys) = dialled xs @ dialled ys"
  by (induction xs rule: dialled.induct) simp_all

lemma transfer_events_silent:
  "list_all is_transfer evs \<Longrightarrow> handshakes evs = [] \<and> dialled evs = []"
proof (induction evs)
  case Nil
  then show ?case by simp
next
  case (Cons ev evs)
  then show ?case by (cases ev) simp_all
qed

lemma deferred_closes_quiet:
  "filter is_dial (deferred_closes tc pc) = [] \<and> handshakes (deferred_closes tc pc) = []
   \<and> dialled (deferred_closes tc pc) = [] \<and> opened (deferred_closes tc pc) = []
   \<and> logged (deferred_closes tc pc) = []
   \<and> closed (deferred_closes tc pc) = tc # (case pc of None \<Rightarrow> [] | Some p \<Rightarrow> [p])"
  by (simp add: deferred_closes_def split: option.splits)

lemma main_transfer_summary:
  assumes "main_transfer P getenv direction tc pc w = (out, w', evs)"
    and "direction = DirectionUpload \<or> direction = DirectionDownload"
  shows "filter is_dial evs = [] \<and> handshakes evs = [] \<and> dialled evs = [] \<and> opened evs = []
    \<and> (case out of
          Fatal msg \<Rightarrow> closed evs = []
        | Returned \<Rightarrow> closed evs = tc # (case pc of None \<Rightarrow> [] | Some p \<Rightarrow> [p]))"
proof -
  from assms(2) obtain res w1 evs1
    where quiet: "list_all is_transfer evs1"
      and evs: "case res of Inl msg \<Rightarrow> out = Fatal msg \<and> evs = evs1
                | Inr n \<Rightarrow> out = Returned
                    \<and> evs = evs1 @ EvLog (msg_transferred n) # deferred_closes tc pc"
  proof
    assume up: "direction = DirectionUpload"
    from main_transfer_upload [OF assms(1) [unfolded up]] obtain res w1 evs1
      where run: "Upload P tc (strings_Split (getenv ''SOURCE'') (CHR 0x0A))
                    (trimSpace P (getenv ''TARGET'')) w = (res, w1, evs1)"
        and evs: "case res of Inl msg \<Rightarrow> out = Fatal msg \<and> evs = evs1
                  | Inr n \<Rightarrow> out = Returned
                      \<and> evs = evs1 @ EvLog (msg_transferred n) # deferred_closes tc pc"
      by blast
    from Upload_transfer [OF run] evs show ?thesis by (rule that)
  next
    assume down: "direction = DirectionDownload"
    from main_transfer_download [OF assms(1) [unfolded down]] obtain res w1 evs1
      where run: "Download P tc (strings_Split (getenv ''SOURCE'') (CHR 0x0A))
                    (trimSpace P (getenv ''TARGET'')) w = (res, w1, evs1)"
        and evs: "case res of Inl msg \<Rightarrow> out = Fatal msg \<and> evs = evs1
                  | Inr n \<Rightarrow> out = Returned
                      \<and> evs = evs1 @ EvLog (msg_transferred n) # deferred_closes tc pc"
      by blast
    from Download_transfer [OF run] evs show ?thesis by (rule that)
  qed
  from transfer_events_quiet [OF quiet] transfer_events_silent [OF quiet] evs
  show ?thesis
    by (cases res)
       (simp_all add: opened_append closed_append handshakes_append dialled_append
          deferred_closes_quiet)
qed

lemma main_config_events:
  "main_config P getenv = (res, evs) \<Longrightarrow> evs = [] \<or> (\<exists>d. evs = [EvTimer d])"
  by (auto simp: main_config_def Let_def split: sum.splits if_splits)

lemma main_config_ok:
  "main_config P getenv = (Inr (direction, timeout, targetSigner), evs) \<Longrightarrow>
     direction = getenv ''DIRECTION''
     \<and> (direction = DirectionUpload \<or> direction = DirectionDownload)
     \<and> parseDuration P (getenv ''TIMEOUT'') = Inr timeout
     \<and> parsePrivateKey P (getenv ''KEY'') = Inr targetSigner
     \<and> getenv ''HOST'' \<noteq> []
     \<and> \<not> isl (parseDuration P (getenv ''ACTION_TIMEOUT''))"
  by (auto simp: main_config_def Let_def split: sum.splits if_splits)

text \<open>
  Opening the session to the target: one dial without a proxy; with a proxy, the four ways
  in which the phase can go, each with the events it leaves.
\<close>

lemma main_connect_direct:
  assumes "main_connect P getenv timeout targetSigner w = (res, w', evs)"
    and "getenv ''PROXY_HOST'' = []"
  shows "\<exists>r. sshDial P w (targetAddress getenv) (targetConfig P getenv timeout targetSigner) = (r, w')
     \<and> evs = [EvSshDial (targetAddress getenv) (targetConfig P getenv timeout targetSigner) r]
     \<and> (case r of Inl err \<Rightarrow> res = Inl (''Failed to connect to target: '' @ err)
         | Inr tc \<Rightarrow> res = Inr (tc, None))"
  using assms
  by (auto simp: main_connect_def Let_def targetAddress_def split: sum.splits prod.splits)

lemma main_connect_proxy:
  assumes "main_connect P getenv timeout targetSigner w = (res, w', evs)"
    and "getenv ''PROXY_HOST'' \<noteq> []"
  shows "(\<exists>err. parsePrivateKey P (getenv ''PROXY_KEY'') = Inl err
            \<and> res = Inl (''Failed to parse proxy key: '' @ err) \<and> evs = [] \<and> w' = w)
     \<or> (\<exists>proxySigner err.
            parsePrivateKey P (getenv ''PROXY_KEY'') = Inr proxySigner
            \<and> sshDial P w (proxyAddress getenv) (proxyConfig P getenv timeout proxySigner)
                = (Inl err, w')
            \<and> res = Inl (''Failed to connect to proxy: '' @ err)
            \<and> evs = [EvSshDial (proxyAddress getenv) (proxyConfig P getenv timeout proxySigner)
                       (Inl err)])
     \<or> (\<exists>proxySigner pc w1 err.
            parsePrivateKey P (getenv ''PROXY_KEY'') = Inr proxySigner
            \<and> sshDial P w (proxyAddress getenv) (proxyConfig P getenv timeout proxySigner)
                = (Inr pc, w1)
            \<and> res = Inl (''Failed to dial to target: '' @ err)
            \<and> evs = [EvSshDial (proxyAddress getenv) (proxyConfig P getenv timeout proxySigner)
                       (Inr pc),
                     EvClientDial pc (targetAddress getenv) (Inl err)])
     \<or> (\<exists>proxySigner pc w1 conn r.
            parsePrivateKey P (getenv ''PROXY_KEY'') = Inr proxySigner
            \<and> sshDial P w (proxyAddress getenv) (proxyConfig P getenv timeout proxySigner)
                = (Inr pc, w1)
            \<and> evs = [EvSshDial (proxyAddress getenv) (proxyConfig P getenv timeout proxySigner)
                       (Inr pc),
                     EvClientDial pc (targetAddress getenv) (Inr conn),
                     EvNewClientConn conn (targetAddress getenv)
                       (targetConfig P getenv timeout targetSigner) r]
            \<and> (case r of Inl err \<Rightarrow> res = Inl (''new target conn error: '' @ err)
                | Inr tc \<Rightarrow> res = Inr (tc, Some pc)))"
  using assms
  by (auto simp: main_connect_def Let_def targetAddress_def proxyAddress_def
           split: sum.splits prod.splits)

section \<open>The runs of main\<close>

text \<open>A run of \<^verbatim>\<open>main\<close> ends in one of its three phases.\<close>

lemma main_cases:
  assumes "main P getenv w = (out, w', evs)"
  obtains (config) msg where "main_config P getenv = (Inl msg, evs)" "out = Fatal msg" "w' = w"
  | (connect) direction timeout signer evs0 msg evs1
      where "main_config P getenv = (Inr (direction, timeout, signer), evs0)"
        "main_connect P getenv timeout signer w = (Inl msg, w', evs1)"
        "out = Fatal msg" "evs = evs0 @ evs1"
  | (transfer) direction timeout signer evs0 tc pc w1 evs1 evs2
      where "main_config P getenv = (Inr (direction, timeout, signer), evs0)"
        "main_connect P getenv timeout signer w = (Inr (tc, pc), w1, evs1)"
        "main_transfer P getenv direction tc pc w1 = (out, w', evs2)"
        "evs = evs0 @ evs1 @ evs2"
proof -
  obtain r0 evs0 where cfg: "main_config P getenv = (r0, evs0)"
    by (cases "main_config P getenv") auto
  show ?thesis
  proof (cases r0)
    case (Inl msg)
    with cfg assms have "main_config P getenv = (Inl msg, evs)" "out = Fatal msg" "w' = w"
      by (auto simp: main_def)
    then show ?thesis by (rule config)
  next
    case (Inr triple)
    obtain direction timeout signer where triple: "triple = (direction, timeout, signer)"
      by (cases triple) auto
    obtain r1 w1 evs1 where con: "main_connect P getenv timeout signer w = (r1, w1, evs1)"
      by (cases "main_connect P getenv timeout signer w") auto
    show ?thesis
    proof (cases r1)
      case (Inl msg)
      with cfg Inr triple con assms
      have "main_config P getenv = (Inr (direction, timeout, signer), evs0)"
        "main_connect P getenv timeout signer w = (Inl msg, w', evs1)"
        "out = Fatal msg" "evs = evs0 @ evs1"
        by (auto simp: main_def)
      then show ?thesis by (rule connect)
    next
      case (Inr pair)
      obtain tc pc where pair: "pair = (tc, pc)"
        by (cases pair) auto
      obtain o2 w2 evs2 where tr: "main_transfer P getenv direction tc pc w1 = (o2, w2, evs2)"
        by (cases "main_transfer P getenv direction tc pc w1") auto
      from cfg \<open>r0 = Inr triple\<close> triple con Inr pair tr assms
      have "main_config P getenv = (Inr (direction, timeout, signer), evs0)"
        "main_connect P getenv timeout signer w = (Inr (tc, pc), w1, evs1)"
        "main_transfer P getenv direction tc pc w1 = (out, w', evs2)"
        "evs = evs0 @ evs1 @ evs2"
        by (auto simp: main_def)
      then show ?thesis by (rule transfer)
    qed
  qed
qed

lemma config_events_quiet:
  assumes "evs = [] \<or> (\<exists>d. evs = [EvTimer d])"
  shows "filter is_network evs = [] \<and> filter is_dial evs = [] \<and> handshakes evs = []
     \<and> dialled evs = [] \<and> opened evs = [] \<and> closed evs = [] \<and> copies evs = []"
  using assms by auto

lemma timer_then_dials:
  assumes "evs0 = [] \<or> (\<exists>d. evs0 = [EvTimer d])"
  shows "filter is_dial (evs0 @ evs1) = filter is_dial evs1
     \<and> handshakes (evs0 @ evs1) = handshakes evs1
     \<and> dialled (evs0 @ evs1) = dialled evs1
     \<and> opened (evs0 @ evs1) = opened evs1
     \<and> closed (evs0 @ evs1) = closed evs1
     \<and> copies (evs0 @ evs1) = copies evs1"
  using assms by auto

lemma main_connect_proxy_cases:
  assumes "main_connect P getenv timeout targetSigner w = (res, w', evs)"
    and "getenv ''PROXY_HOST'' \<noteq> []"
  obtains (key) err
      where "parsePrivateKey P (getenv ''PROXY_KEY'') = Inl err"
        "res = Inl (''Failed to parse proxy key: '' @ err)" "evs = []" "w' = w"
  | (dial) proxySigner err
      where "parsePrivateKey P (getenv ''PROXY_KEY'') = Inr proxySigner"
        "sshDial P w (proxyAddress getenv) (proxyConfig P getenv timeout proxySigner)
           = (Inl err, w')"
        "res = Inl (''Failed to connect to proxy: '' @ err)"
        "evs = [EvSshDial (proxyAddress getenv) (proxyConfig P getenv timeout proxySigner)
                  (Inl err)]"
  | (tunnel) proxySigner pc w1 err
      where "parsePrivateKey P (getenv ''PROXY_KEY'') = Inr proxySigner"
        "sshDial P w (proxyAddress getenv) (proxyConfig P getenv timeout proxySigner)
           = (Inr pc, w1)"
        "res = Inl (''Failed to dial to target: '' @ err)"
        "evs = [EvSshDial (proxyAddress getenv) (proxyConfig P getenv timeout proxySigner)
                  (Inr pc),
                EvClientDial pc (targetAddress getenv) (Inl err)]"
  | (handshake) proxySigner pc w1 conn r
      where "parsePrivateKey P (getenv ''PROXY_KEY'') = Inr proxySigner"
        "sshDial P w (proxyAddress getenv) (proxyConfig P getenv timeout proxySigner)
           = (Inr pc, w1)"
        "evs = [EvSshDial (proxyAddress getenv) (proxyConfig P getenv timeout proxySigner)
                  (Inr pc),
                EvClientDial pc (targetAddress getenv) (Inr conn),
                EvNewClientConn conn (targetAddress getenv)
                  (targetConfig P getenv timeout targetSigner) r]"
        "case r of Inl err \<Rightarrow> res = Inl (''new target conn error: '' @ err)
         | Inr tc \<Rightarrow> res = Inr (tc, Some pc)"
  using main_connect_proxy [OF assms] by blast






section \<open>The proxy\<close>

text \<open>
  C5. In a run with a proxy (\<^verbatim>\<open>PROXY_HOST\<close> not empty), when the session to the proxy
  cannot be set up - the key of the proxy does not parse, or the dial to the proxy with the
  configuration of the proxy fails, for whatever reason - the process ends with
  \<^verbatim>\<open>log.Fatalf\<close>, and the target has never been approached: the only connection event
  there can be is the failed dial to the proxy, no tunnel to the target has been asked for,
  no handshake with the target has begun, no session is open and no file has been copied.
\<close>

theorem proxy_failure_never_reaches_target:
  assumes "getenv ''PROXY_HOST'' \<noteq> []"
    and "main P getenv w = (out, w', evs)"
    and "isl (parsePrivateKey P (getenv ''PROXY_KEY''))
         \<or> (\<exists>timeout proxySigner.
               parseDuration P (getenv ''TIMEOUT'') = Inr timeout
               \<and> parsePrivateKey P (getenv ''PROXY_KEY'') = Inr proxySigner
               \<and> isl (fst (sshDial P w (proxyAddress getenv)
                              (proxyConfig P getenv timeout proxySigner))))"
  shows "(\<exists>msg. out = Fatal msg)
     \<and> (filter is_dial evs = []
         \<or> (\<exists>timeout proxySigner err.
               filter is_dial evs
                 = [EvSshDial (proxyAddress getenv) (proxyConfig P getenv timeout proxySigner)
                      (Inl err)]))
     \<and> opened evs = [] \<and> copies evs = []"
  using assms(2)
proof (cases rule: main_cases)
  case (config msg)
  from main_config_events [OF config(1)] config_events_quiet [of evs] config(2)
  show ?thesis by auto
next
  case (connect direction timeout signer evs0 msg evs1)
  note cfg = main_config_ok [OF connect(1)]
  note tm = timer_then_dials [OF main_config_events [OF connect(1)], of evs1]
  from connect(2) assms(1) show ?thesis
  proof (cases rule: main_connect_proxy_cases)
    case (key err)
    with tm connect(3,4) show ?thesis by simp
  next
    case (dial proxySigner err)
    from dial(4) have "filter is_dial evs1
        = [EvSshDial (proxyAddress getenv) (proxyConfig P getenv timeout proxySigner) (Inl err)]"
      and "opened evs1 = []" and "copies evs1 = []"
      by simp_all
    with tm connect(3,4) show ?thesis by auto
  next
    case (tunnel proxySigner pc w1 err)
    with assms(3) cfg have False by auto
    then show ?thesis ..
  next
    case (handshake proxySigner pc w1 conn r)
    with assms(3) cfg have False by auto
    then show ?thesis ..
  qed
next
  case (transfer direction timeout signer evs0 tc pc w1 evs1 evs2)
  note cfg = main_config_ok [OF transfer(1)]
  from transfer(2) assms(1) have False
  proof (cases rule: main_connect_proxy_cases)
    case (tunnel proxySigner pc w1 err)
    with assms(3) cfg show ?thesis by auto
  next
    case (handshake proxySigner pc w1 conn r)
    with assms(3) cfg show ?thesis by auto
  qed simp_all
  then show ?thesis ..
qed

theorem proxy_failure_never_reaches_target_witness:
  "getenv_of env_proxy ''PROXY_HOST'' \<noteq> []
   \<and> isl (fst (sshDial (demo [(''target:22'', ''T''), (''jump:2222'', ''X'')] []) 0
                 (proxyAddress (getenv_of env_proxy))
                 (proxyConfig (demo [(''target:22'', ''T''), (''jump:2222'', ''X'')] [])
                    (getenv_of env_proxy) 30000000000 (Signer ''proxy-key''))))
   \<and> (\<exists>msg. fst (main (demo [(''target:22'', ''T''), (''jump:2222'', ''X'')] [])
                    (getenv_of env_proxy) 0) = Fatal msg)
   \<and> opened (snd (snd (main (demo [(''target:22'', ''T''), (''jump:2222'', ''X'')] [])
                          (getenv_of env_proxy) 0))) = []
   \<and> dialled (snd (snd (main (demo [(''target:22'', ''T''), (''jump:2222'', ''X'')] [])
                          (getenv_of env_proxy) 0))) = [''jump:2222'']"
proof -
  let ?P = "demo [(''target:22'', ''T''), (''jump:2222'', ''X'')] []"
  let ?g = "getenv_of env_proxy"
  have host: "?g ''PROXY_HOST'' \<noteq> []"
    by (simp add: run_defs)
  have tm: "parseDuration ?P (?g ''TIMEOUT'') = Inr 30000000000"
    by (simp add: run_defs eval_defs)
  have key: "parsePrivateKey ?P (?g ''PROXY_KEY'') = Inr (Signer ''proxy-key'')"
    by (simp add: run_defs eval_defs)
  have dial: "isl (fst (sshDial ?P 0 (proxyAddress ?g)
                     (proxyConfig ?P ?g 30000000000 (Signer ''proxy-key''))))"
    by (simp add: run_defs eval_defs proxyAddress_def)
  have run: "main ?P ?g 0 = (fst (main ?P ?g 0), fst (snd (main ?P ?g 0)), snd (snd (main ?P ?g 0)))"
    by simp
  from tm key dial
  have fails: "isl (parsePrivateKey ?P (?g ''PROXY_KEY''))
         \<or> (\<exists>timeout proxySigner.
               parseDuration ?P (?g ''TIMEOUT'') = Inr timeout
               \<and> parsePrivateKey ?P (?g ''PROXY_KEY'') = Inr proxySigner
               \<and> isl (fst (sshDial ?P 0 (proxyAddress ?g) (proxyConfig ?P ?g timeout proxySigner))))"
    by blast
  from proxy_failure_never_reaches_target [OF host run fails]
  have "(\<exists>msg. fst (main ?P ?g 0) = Fatal msg)" and "opened (snd (snd (main ?P ?g 0))) = []"
    by blast+
  moreover have "dialled (snd (snd (main ?P ?g 0))) = [''jump:2222'']"
    by (simp add: run_defs eval_defs)
  ultimately show ?thesis
    using host dial by blast
qed

section \<open>One verifier for each endpoint\<close>

lemma main_connect_handshakes:
  assumes "main_connect P getenv timeout targetSigner w = (res, w', evs)"
    and "getenv ''PROXY_HOST'' \<noteq> []"
  shows "prefix (handshakes evs)
           [(proxyAddress getenv,
             VerifyFingerprint (fingerprintSHA256 P) (getenv ''PROXY_FINGERPRINT'')),
            (targetAddress getenv,
             VerifyFingerprint (fingerprintSHA256 P) (getenv ''FINGERPRINT''))]
     \<and> (\<forall>pair. res = Inr pair \<longrightarrow>
           handshakes evs
             = [(proxyAddress getenv,
                 VerifyFingerprint (fingerprintSHA256 P) (getenv ''PROXY_FINGERPRINT'')),
                (targetAddress getenv,
                 VerifyFingerprint (fingerprintSHA256 P) (getenv ''FINGERPRINT''))])"
  using assms
proof (cases rule: main_connect_proxy_cases)
  case (key err)
  then show ?thesis by simp
next
  case (dial proxySigner err)
  then show ?thesis by (simp add: proxyConfig_def)
next
  case (tunnel proxySigner pc w1 err)
  then show ?thesis by (simp add: proxyConfig_def)
next
  case (handshake proxySigner pc w1 conn r)
  then show ?thesis by (simp add: proxyConfig_def targetConfig_def)
qed

text \<open>
  C6. The host-key callback in the configuration of the proxy is the verifier made from
  \<^verbatim>\<open>PROXY_FINGERPRINT\<close>, and the one in the configuration of the target is the verifier
  made from \<^verbatim>\<open>FINGERPRINT\<close>; the configuration of the proxy does not change when the
  fingerprint of the target changes, nor that of the target with the fingerprint of the
  proxy. In every run with a proxy the handshakes are, in this order, the one with the
  address of the proxy under the verifier of the proxy and the one with the address of the
  target under the verifier of the target (both of them when the run returns, a front part
  of the two otherwise): no handshake is ever given the verifier of the other endpoint.
\<close>

theorem verifiers_are_endpoint_specific:
  "HostKeyCallback (proxyConfig P getenv timeout signer)
     = VerifyFingerprint (fingerprintSHA256 P) (getenv ''PROXY_FINGERPRINT'')
   \<and> HostKeyCallback (targetConfig P getenv timeout signer)
     = VerifyFingerprint (fingerprintSHA256 P) (getenv ''FINGERPRINT'')
   \<and> proxyConfig P (getenv(''FINGERPRINT'' := other)) timeout signer
     = proxyConfig P getenv timeout signer
   \<and> targetConfig P (getenv(''PROXY_FINGERPRINT'' := other)) timeout signer
     = targetConfig P getenv timeout signer
   \<and> (getenv ''PROXY_HOST'' \<noteq> [] \<and> main P getenv w = (out, w', evs) \<longrightarrow>
         prefix (handshakes evs)
           [(proxyAddress getenv,
             VerifyFingerprint (fingerprintSHA256 P) (getenv ''PROXY_FINGERPRINT'')),
            (targetAddress getenv,
             VerifyFingerprint (fingerprintSHA256 P) (getenv ''FINGERPRINT''))]
         \<and> (out = Returned \<longrightarrow>
               handshakes evs
                 = [(proxyAddress getenv,
                     VerifyFingerprint (fingerprintSHA256 P) (getenv ''PROXY_FINGERPRINT'')),
                    (targetAddress getenv,
                     VerifyFingerprint (fingerprintSHA256 P) (getenv ''FINGERPRINT''))]))"
proof -
  have run: "prefix (handshakes evs)
           [(proxyAddress getenv,
             VerifyFingerprint (fingerprintSHA256 P) (getenv ''PROXY_FINGERPRINT'')),
            (targetAddress getenv,
             VerifyFingerprint (fingerprintSHA256 P) (getenv ''FINGERPRINT''))]
         \<and> (out = Returned \<longrightarrow>
               handshakes evs
                 = [(proxyAddress getenv,
                     VerifyFingerprint (fingerprintSHA256 P) (getenv ''PROXY_FINGERPRINT'')),
                    (targetAddress getenv,
                     VerifyFingerprint (fingerprintSHA256 P) (getenv ''FINGERPRINT''))])"
    if proxy: "getenv ''PROXY_HOST'' \<noteq> []" and main: "main P getenv w = (out, w', evs)"
    using main
  proof (cases rule: main_cases)
    case (config msg)
    from main_config_events [OF config(1)] config_events_quiet [of evs] config(2)
    show ?thesis by auto
  next
    case (connect direction timeout signer evs0 msg evs1)
    note tm = timer_then_dials [OF main_config_events [OF connect(1)], of evs1]
    from main_connect_handshakes [OF connect(2) proxy] tm connect(3,4)
    show ?thesis by simp
  next
    case (transfer direction timeout signer evs0 tc pc w1 evs1 evs2)
    note tm = timer_then_dials [OF main_config_events [OF transfer(1)], of "evs1 @ evs2"]
    from main_config_ok [OF transfer(1)]
    have "direction = DirectionUpload \<or> direction = DirectionDownload" by blast
    from main_transfer_summary [OF transfer(3) this]
    have "handshakes evs2 = []" by simp
    with main_connect_handshakes [OF transfer(2) proxy] tm transfer(4)
    show ?thesis by (simp add: handshakes_append)
  qed
  have "HostKeyCallback (proxyConfig P getenv timeout signer)
     = VerifyFingerprint (fingerprintSHA256 P) (getenv ''PROXY_FINGERPRINT'')"
    and "HostKeyCallback (targetConfig P getenv timeout signer)
     = VerifyFingerprint (fingerprintSHA256 P) (getenv ''FINGERPRINT'')"
    and "proxyConfig P (getenv(''FINGERPRINT'' := other)) timeout signer
     = proxyConfig P getenv timeout signer"
    and "targetConfig P (getenv(''PROXY_FINGERPRINT'' := other)) timeout signer
     = targetConfig P getenv timeout signer"
    by (simp_all add: proxyConfig_def targetConfig_def)
  with run show ?thesis by blast
qed

theorem verifiers_are_endpoint_specific_witness:
  "getenv_of env_proxy ''PROXY_HOST'' \<noteq> []
   \<and> fst (main (demo net_ok []) (getenv_of env_proxy) 0) = Returned
   \<and> handshakes (snd (snd (main (demo net_ok []) (getenv_of env_proxy) 0)))
       = [(''jump:2222'', VerifyFingerprint (\<lambda>key. ''SHA256:'' @ key) ''SHA256:P''),
          (''target:22'', VerifyFingerprint (\<lambda>key. ''SHA256:'' @ key) ''SHA256:T'')]
   \<and> fst (main (demo [(''target:22'', ''P''), (''jump:2222'', ''P'')] []) (getenv_of env_proxy) 0)
       = Fatal ''new target conn error: ssh: handshake failed: fingerprint mismatch''
   \<and> fst (main (demo [(''target:22'', ''T''), (''jump:2222'', ''T'')] []) (getenv_of env_proxy) 0)
       = Fatal ''Failed to connect to proxy: ssh: handshake failed: fingerprint mismatch''"
proof -
  let ?P = "demo net_ok []"
  let ?g = "getenv_of env_proxy"
  have host: "?g ''PROXY_HOST'' \<noteq> []"
    by (simp add: run_defs)
  have out: "fst (main ?P ?g 0) = Returned"
    by (simp add: run_defs eval_defs)
  have run: "main ?P ?g 0 = (Returned, fst (snd (main ?P ?g 0)), snd (snd (main ?P ?g 0)))"
    using out by (cases "main ?P ?g 0") simp
  have vals: "proxyAddress ?g = ''jump:2222''" "targetAddress ?g = ''target:22''"
    "fingerprintSHA256 ?P = (\<lambda>key. ''SHA256:'' @ key)"
    "?g ''PROXY_FINGERPRINT'' = ''SHA256:P''" "?g ''FINGERPRINT'' = ''SHA256:T''"
    by (simp_all add: run_defs demo_def proxyAddress_def targetAddress_def)
  from verifiers_are_endpoint_specific
         [of ?P ?g 0 "Signer ''k''" "[]" 0 Returned "fst (snd (main ?P ?g 0))"
             "snd (snd (main ?P ?g 0))"] host run
  have "handshakes (snd (snd (main ?P ?g 0)))
       = [(proxyAddress ?g, VerifyFingerprint (fingerprintSHA256 ?P) (?g ''PROXY_FINGERPRINT'')),
          (targetAddress ?g, VerifyFingerprint (fingerprintSHA256 ?P) (?g ''FINGERPRINT''))]"
    by blast
  then have "handshakes (snd (snd (main ?P ?g 0)))
       = [(''jump:2222'', VerifyFingerprint (\<lambda>key. ''SHA256:'' @ key) ''SHA256:P''),
          (''target:22'', VerifyFingerprint (\<lambda>key. ''SHA256:'' @ key) ''SHA256:T'')]"
    unfolding vals .
  moreover
  have "fst (main (demo [(''target:22'', ''P''), (''jump:2222'', ''P'')] []) ?g 0)
       = Fatal ''new target conn error: ssh: handshake failed: fingerprint mismatch''"
    by (simp add: run_defs eval_defs)
  moreover
  have "fst (main (demo [(''target:22'', ''T''), (''jump:2222'', ''T'')] []) ?g 0)
       = Fatal ''Failed to connect to proxy: ssh: handshake failed: fingerprint mismatch''"
    by (simp add: run_defs eval_defs)
  ultimately show ?thesis
    using host out by blast
qed

section \<open>Closing the sessions\<close>

text \<open>
  The deferred calls run only when \<^verbatim>\<open>main\<close> returns. A run that returns has closed
  every session it opened, the last one opened first. A run that ends in \<^verbatim>\<open>log.Fatalf\<close>
  has closed nothing, whatever it had opened.
\<close>

lemma main_connect_sessions:
  assumes "main_connect P getenv timeout signer w = (res, w', evs)"
  shows "closed evs = []
     \<and> (\<forall>tc pc. res = Inr (tc, pc) \<longrightarrow>
           opened evs = (case pc of None \<Rightarrow> [tc] | Some p \<Rightarrow> [p, tc]))"
proof (cases "getenv ''PROXY_HOST'' = []")
  case True
  from main_connect_direct [OF assms True] obtain r
    where evs: "evs = [EvSshDial (targetAddress getenv) (targetConfig P getenv timeout signer) r]"
      and res: "case r of Inl err \<Rightarrow> res = Inl (''Failed to connect to target: '' @ err)
                | Inr tc \<Rightarrow> res = Inr (tc, None)"
    by blast
  then show ?thesis by (cases r) auto
next
  case False
  from assms False show ?thesis
  proof (cases rule: main_connect_proxy_cases)
    case (handshake proxySigner pc w1 conn r)
    then show ?thesis by (cases r) auto
  qed auto
qed

lemma fatal_run_closes_nothing:
  assumes "main P getenv w = (Fatal msg, w', evs)"
  shows "closed evs = []"
  using assms
proof (cases rule: main_cases)
  case (config msg)
  from main_config_events [OF config(1)] show ?thesis by auto
next
  case (connect direction timeout signer evs0 msg evs1)
  note tm = timer_then_dials [OF main_config_events [OF connect(1)], of evs1]
  from main_connect_sessions [OF connect(2)] tm connect(4) show ?thesis by simp
next
  case (transfer direction timeout signer evs0 tc pc w1 evs1 evs2)
  note tm = timer_then_dials [OF main_config_events [OF transfer(1)], of "evs1 @ evs2"]
  from main_config_ok [OF transfer(1)]
  have "direction = DirectionUpload \<or> direction = DirectionDownload" by blast
  from main_transfer_summary [OF transfer(3) this]
  have "closed evs2 = []" by simp
  with main_connect_sessions [OF transfer(2)] tm transfer(4) show ?thesis
    by (simp add: closed_append)
qed

lemma returned_run_closes_every_session:
  assumes "main P getenv w = (Returned, w', evs)"
  shows "opened evs \<noteq> [] \<and> closed evs = rev (opened evs)"
  using assms
proof (cases rule: main_cases)
  case (transfer direction timeout signer evs0 tc pc w1 evs1 evs2)
  note tm = timer_then_dials [OF main_config_events [OF transfer(1)], of "evs1 @ evs2"]
  from main_config_ok [OF transfer(1)]
  have "direction = DirectionUpload \<or> direction = DirectionDownload" by blast
  from main_transfer_summary [OF transfer(3) this]
  have "opened evs2 = []" "closed evs2 = tc # (case pc of None \<Rightarrow> [] | Some p \<Rightarrow> [p])"
    by simp_all
  with main_connect_sessions [OF transfer(2)] tm transfer(4) show ?thesis
    by (simp add: closed_append opened_append split: option.splits)
qed simp_all

text \<open>
  C7 says that on every exit path, fatal ones included, every session opened is closed
  before the process exits. The code defers the two \<^verbatim>\<open>Close\<close> calls and then leaves
  through \<^verbatim>\<open>log.Fatalf\<close>, which exits without running them. With a proxy: when the
  handshake with the target fails, the session to the proxy is open and is not closed; when
  a copy fails, both sessions are open and neither is closed. The run that succeeds closes
  both, the target first.
\<close>

theorem fatal_exit_leaves_sessions_open:
  "fst (main (demo [(''target:22'', ''X''), (''jump:2222'', ''P'')] []) (getenv_of env_proxy) 0)
     = Fatal ''new target conn error: ssh: handshake failed: fingerprint mismatch''
   \<and> opened (snd (snd (main (demo [(''target:22'', ''X''), (''jump:2222'', ''P'')] [])
                          (getenv_of env_proxy) 0))) = [Client 0]
   \<and> closed (snd (snd (main (demo [(''target:22'', ''X''), (''jump:2222'', ''P'')] [])
                          (getenv_of env_proxy) 0))) = []
   \<and> fst (main (demo net_ok [''/c/y.txt'']) (getenv_of env_proxy) 0)
     = Fatal ''Failed to upload file to remote: no such file''
   \<and> opened (snd (snd (main (demo net_ok [''/c/y.txt'']) (getenv_of env_proxy) 0)))
     = [Client 0, Client 2]
   \<and> closed (snd (snd (main (demo net_ok [''/c/y.txt'']) (getenv_of env_proxy) 0))) = []
   \<and> fst (main (demo net_ok []) (getenv_of env_proxy) 0) = Returned
   \<and> opened (snd (snd (main (demo net_ok []) (getenv_of env_proxy) 0))) = [Client 0, Client 2]
   \<and> closed (snd (snd (main (demo net_ok []) (getenv_of env_proxy) 0))) = [Client 2, Client 0]"
  by (simp add: run_defs eval_defs)

section \<open>The diagnostic of a key that does not parse\<close>

text \<open>
  The message of a target key that does not parse (line 64) is the one of the proxy key
  (line 88).
\<close>

lemma target_key_failure_message:
  assumes "parseDuration P (getenv ''ACTION_TIMEOUT'') = Inr actionTimeout"
    and "getenv ''DIRECTION'' = DirectionUpload \<or> getenv ''DIRECTION'' = DirectionDownload"
    and "parseDuration P (getenv ''TIMEOUT'') = Inr timeout"
    and "getenv ''HOST'' \<noteq> []"
    and "parsePrivateKey P (getenv ''KEY'') = Inl err"
  shows "main P getenv w = (Fatal (''Failed to parse proxy key: '' @ err), w, [EvTimer actionTimeout])"
  using assms by (auto simp: main_def main_config_def Let_def)

text \<open>
  C9 says that a target key that does not parse gives a diagnostic naming the target.
  In a run without any proxy, whose \<^verbatim>\<open>KEY\<close> does not parse, the process ends with the
  message \<^verbatim>\<open>Failed to parse proxy key\<close>.
\<close>

theorem target_key_error_names_proxy:
  "getenv_of ((''KEY'', ''garbage'') # env_direct) ''PROXY_HOST'' = []
   \<and> parsePrivateKey (demo net_ok []) (getenv_of ((''KEY'', ''garbage'') # env_direct) ''KEY'')
       = Inl ''ssh: no key found''
   \<and> main (demo net_ok []) (getenv_of ((''KEY'', ''garbage'') # env_direct)) 0
       = (Fatal ''Failed to parse proxy key: ssh: no key found'', 0, [EvTimer 600000000000])"
  by (simp add: run_defs eval_defs)

section \<open>The timer\<close>

text \<open>
  The part of the watchdog that the transcript shows: the timer is started at most once,
  and when it is, that is the first event of the run, before any use of the network. What
  happens when it fires is outside this model.
\<close>

lemma timer_armed_first:
  assumes "main P getenv w = (out, w', evs)"
  shows "evs = [] \<or> (\<exists>d rest. evs = EvTimer d # rest \<and> (\<forall>d'. EvTimer d' \<notin> set rest))"
  using assms
proof (cases rule: main_cases)
  case (config msg)
  from main_config_events [OF config(1)] show ?thesis by auto
next
  case (connect direction timeout signer evs0 msg evs1)
  have "\<forall>d'. EvTimer d' \<notin> set evs1"
  proof (cases "getenv ''PROXY_HOST'' = []")
    case True
    from main_connect_direct [OF connect(2) True] show ?thesis by auto
  next
    case False
    from connect(2) False show ?thesis
      by (cases rule: main_connect_proxy_cases) auto
  qed
  with main_config_events [OF connect(1)] main_config_ok [OF connect(1)] connect(1,4)
  show ?thesis
    by (auto simp: main_config_def Let_def split: sum.splits if_splits)
next
  case (transfer direction timeout signer evs0 tc pc w1 evs1 evs2)
  have one: "\<forall>d'. EvTimer d' \<notin> set evs1"
  proof (cases "getenv ''PROXY_HOST'' = []")
    case True
    from main_connect_direct [OF transfer(2) True] show ?thesis by auto
  next
    case False
    from transfer(2) False show ?thesis
      by (cases rule: main_connect_proxy_cases) auto
  qed
  from main_config_ok [OF transfer(1)]
  have dir: "direction = DirectionUpload \<or> direction = DirectionDownload" by blast
  have two: "\<forall>d'. EvTimer d' \<notin> set evs2"
  proof
    fix d'
    from dir obtain res evs3 n
      where tr: "list_all is_transfer evs3"
        and shape: "evs2 = evs3 \<or> evs2 = evs3 @ EvLog (msg_transferred n) # deferred_closes tc pc"
    proof
      assume up: "direction = DirectionUpload"
      from main_transfer_upload [OF transfer(3) [unfolded up]] obtain res w2 evs3
        where run: "Upload P tc (strings_Split (getenv ''SOURCE'') (CHR 0x0A))
                      (trimSpace P (getenv ''TARGET'')) w1 = (res, w2, evs3)"
          and evs: "case res of Inl msg \<Rightarrow> out = Fatal msg \<and> evs2 = evs3
                    | Inr n \<Rightarrow> out = Returned
                        \<and> evs2 = evs3 @ EvLog (msg_transferred n) # deferred_closes tc pc"
        by blast
      from Upload_transfer [OF run] evs show ?thesis
        by (cases res) (auto intro: that)
    next
      assume down: "direction = DirectionDownload"
      from main_transfer_download [OF transfer(3) [unfolded down]] obtain res w2 evs3
        where run: "Download P tc (strings_Split (getenv ''SOURCE'') (CHR 0x0A))
                      (trimSpace P (getenv ''TARGET'')) w1 = (res, w2, evs3)"
          and evs: "case res of Inl msg \<Rightarrow> out = Fatal msg \<and> evs2 = evs3
                    | Inr n \<Rightarrow> out = Returned
                        \<and> evs2 = evs3 @ EvLog (msg_transferred n) # deferred_closes tc pc"
        by blast
      from Download_transfer [OF run] evs show ?thesis
        by (cases res) (auto intro: that)
    qed
    from tr have "EvTimer d' \<notin> set evs3"
      by (induction evs3) auto
    with shape show "EvTimer d' \<notin> set evs2"
      by (auto simp: deferred_closes_def split: option.splits)
  qed
  from main_config_events [OF transfer(1)] main_config_ok [OF transfer(1)] transfer(1,4) one two
  show ?thesis
    by (auto simp: main_config_def Let_def split: sum.splits if_splits)
qed

end
